theory Spec2Isabelle
  imports Complex_Main "HOL-Library.Multiset" "HOL-Library.Sublist"
begin

section \<open>PhotoToKML: clustering geotagged photos and synthesising tracks\<close>

text \<open>
  The development embeds the pure parts of \<^verbatim>\<open>kml.py\<close>, \<^verbatim>\<open>PlainExtractTotrack.py\<close>,
  \<^verbatim>\<open>topath.py\<close> and \<^verbatim>\<open>cleankml.py\<close>. The functions \<^verbatim>\<open>sanitize_path\<close>,
  \<^verbatim>\<open>cluster_points\<close>, \<^verbatim>\<open>create_kml\<close> and the cluster loop of \<^verbatim>\<open>process_directory\<close> are
  textually the same in \<^verbatim>\<open>kml.py\<close> and \<^verbatim>\<open>PlainExtractTotrack.py\<close>, and
  \<^verbatim>\<open>process_kml_file\<close>/\<^verbatim>\<open>process_xmp_file\<close> of \<^verbatim>\<open>topath.py\<close> are the same as the
  \<^verbatim>\<open>..._for_tracks\<close> functions of \<^verbatim>\<open>PlainExtractTotrack.py\<close>; one definition stands for
  each.

  Python strings are modelled as \<^typ>\<open>string\<close>. Every character the code searches for
  (colon, slash, backslash, space, comma) is ASCII, so the byte-wise reading agrees with
  Python's reading by code point.
\<close>

subsection \<open>String primitives of Python\<close>

text \<open>\<^verbatim>\<open>s.replace(old, new)\<close> for a one-character \<^verbatim>\<open>old\<close>: every occurrence is replaced.\<close>

fun str_replace :: "char \<Rightarrow> string \<Rightarrow> string \<Rightarrow> string" where
  "str_replace old new [] = []"
| "str_replace old new (c # cs) =
     (if c = old then new @ str_replace old new cs else c # str_replace old new cs)"

text \<open>\<^verbatim>\<open>s.replace(old, new, count)\<close>: only the first \<^verbatim>\<open>count\<close> occurrences are replaced.\<close>

fun str_replace_count :: "char \<Rightarrow> string \<Rightarrow> nat \<Rightarrow> string \<Rightarrow> string" where
  "str_replace_count old new n [] = []"
| "str_replace_count old new n (c # cs) =
     (if c = old \<and> 0 < n then new @ str_replace_count old new (n - 1) cs
      else c # str_replace_count old new n cs)"

subsection \<open>\<^verbatim>\<open>sanitize_path\<close>\<close>

text \<open>
  \<^verbatim>\<open>sanitized = path.replace(":", "").replace("\\", "_").replace("/", "_")\<close>
  \<^verbatim>\<open>sanitized = sanitized.replace(" ", "_")\<close>
\<close>

definition sanitize_path :: "string \<Rightarrow> string" where
  "sanitize_path path =
     (let sanitized = str_replace (CHR ''/'') ''_''
                        (str_replace (CHR 0x5C) ''_'' (str_replace (CHR '':'') [] path))
      in str_replace (CHR '' '') ''_'' sanitized)"

text \<open>
  The sanitize function as the specification words it: path separators, colons and spaces
  are each replaced by an underscore. It is used only to compare with \<^const>\<open>sanitize_path\<close>.
\<close>

definition sanitize_as_specified :: "string \<Rightarrow> string" where
  "sanitize_as_specified path =
     map (\<lambda>c. if c = CHR ''/'' \<or> c = CHR 0x5C \<or> c = CHR '':'' \<or> c = CHR '' ''
              then CHR ''_'' else c) path"

subsection \<open>Placemarks of a point document (\<^verbatim>\<open>create_kml\<close>)\<close>

text \<open>
  A photo with GPS data is the tuple \<^verbatim>\<open>(photo_name, lat, lon, timestamp)\<close>; the timestamp is
  \<^verbatim>\<open>None\<close> when the image has neither \<^verbatim>\<open>datetime_original\<close> nor \<^verbatim>\<open>datetime\<close>.
  In the clustering part Python floats are idealised as real numbers; in the track pass the
  float operations are parameters. Nothing proved below depends on how a float rounds.
\<close>

type_synonym photo = "string \<times> real \<times> real \<times> string option"

text \<open>
  \<^verbatim>\<open>timestamp_formatted = timestamp.replace(':', '-', 2)\<close>
  \<^verbatim>\<open>timestamp_formatted = timestamp_formatted.replace(' ', 'T') + 'Z'\<close>
\<close>

definition format_timestamp :: "string \<Rightarrow> string" where
  "format_timestamp timestamp =
     (let timestamp_formatted = str_replace_count (CHR '':'') ''-'' 2 timestamp
      in str_replace (CHR '' '') ''T'' timestamp_formatted @ ''Z'')"

text \<open>
  The children of one placemark element, in document order. The coordinate text
  \<^verbatim>\<open>f"{lon},{lat}"\<close> keeps the two numbers; how a float prints is not modelled.
\<close>

datatype placemark_child =
    Name string
  | TimeStamp_when string
  | Point_coordinates real real

text \<open>
  One iteration of the placemark loop of \<^verbatim>\<open>create_kml\<close>. The test \<^verbatim>\<open>if timestamp:\<close> is
  Python truthiness: both \<^verbatim>\<open>None\<close> and the empty string skip the time stamp.
\<close>

fun placemark_elements :: "photo \<Rightarrow> placemark_child list" where
  "placemark_elements (photo_name, lat, lon, timestamp) =
     (case timestamp of
        None \<Rightarrow> [Name photo_name, Point_coordinates lon lat]
      | Some ts \<Rightarrow>
          if ts = [] then [Name photo_name, Point_coordinates lon lat]
          else [Name photo_name, TimeStamp_when (format_timestamp ts), Point_coordinates lon lat])"

text \<open>The time stamps a placemark carries (at most one).\<close>

fun emitted_timestamps :: "placemark_child list \<Rightarrow> string list" where
  "emitted_timestamps [] = []"
| "emitted_timestamps (TimeStamp_when w # cs) = w # emitted_timestamps cs"
| "emitted_timestamps (_ # cs) = emitted_timestamps cs"

text \<open>
  \<^verbatim>\<open>create_kml\<close> builds one document per retained cluster. Its title is
  \<^verbatim>\<open>f"{folder_name}...{cluster_number}.../...{total_clusters}..."\<close>; the three values that
  the title embeds are kept as fields. Serialising and writing the file are not modelled.
\<close>

record point_document =
  doc_folder_name :: string
  doc_cluster_number :: nat
  doc_total_clusters :: nat
  doc_placemarks :: "placemark_child list list"

definition create_kml :: "photo list \<Rightarrow> nat \<Rightarrow> nat \<Rightarrow> string \<Rightarrow> point_document" where
  "create_kml cluster_points_list cluster_number total_clusters folder_name =
     \<lparr>doc_folder_name = folder_name,
      doc_cluster_number = cluster_number,
      doc_total_clusters = total_clusters,
      doc_placemarks = map placemark_elements cluster_points_list\<rparr>"

subsection \<open>The cluster loop of \<^verbatim>\<open>process_directory\<close>\<close>

text \<open>
  A Python dictionary iterates in insertion order, so the mapping from labels to member
  lists is an association list. The loop state holds \<^verbatim>\<open>valid_cluster_count\<close>,
  \<^verbatim>\<open>total_discarded_points\<close> and what was written: for each call of \<^verbatim>\<open>create_kml\<close> the
  number used in the file name \<^verbatim>\<open>f"{prefix}_{valid_cluster_count}.kml"\<close>, the member list
  and the document.
\<close>

record filter_state =
  valid_cluster_count :: nat
  total_discarded_points :: nat
  written :: "(nat \<times> photo list \<times> point_document) list"

definition filter_step ::
  "string \<Rightarrow> nat \<Rightarrow> int \<times> photo list \<Rightarrow> filter_state \<Rightarrow> filter_state" where
  "filter_step folder_name total_clusters kv st =
     (let cluster_points_list = snd kv in
      if 3 < length cluster_points_list then
        let n = valid_cluster_count st + 1 in
        st\<lparr>valid_cluster_count := n,
           written := written st @
             [(n, cluster_points_list,
               create_kml cluster_points_list n total_clusters folder_name)]\<rparr>
      else
        st\<lparr>total_discarded_points := total_discarded_points st + length cluster_points_list\<rparr>)"

text \<open>
  What the log reports after the loop: the number of valid clusters, the number of
  discarded clusters \<^verbatim>\<open>len(clusters) - valid_cluster_count\<close> and the number of discarded
  points.
\<close>

record filter_result =
  documents :: "(nat \<times> photo list \<times> point_document) list"
  log_valid_clusters :: nat
  log_discarded_clusters :: int
  log_discarded_points :: nat

definition filter_clusters :: "string \<Rightarrow> (int \<times> photo list) list \<Rightarrow> filter_result" where
  "filter_clusters folder_name clusters =
     (let total_clusters = length (filter (\<lambda>c. 3 < length c) (map snd clusters));
          st = fold (filter_step folder_name total_clusters) clusters
                 \<lparr>valid_cluster_count = 0, total_discarded_points = 0, written = []\<rparr>
      in \<lparr>documents = written st,
          log_valid_clusters = valid_cluster_count st,
          log_discarded_clusters = int (length clusters) - int (valid_cluster_count st),
          log_discarded_points = total_discarded_points st\<rparr>)"

subsection \<open>The track pass (\<^verbatim>\<open>process_kml_file\<close>, \<^verbatim>\<open>process_xmp_file\<close>)\<close>

text \<open>
  \<^verbatim>\<open>s.strip()\<close> removes leading and trailing whitespace; these are the ASCII characters
  that Python counts as whitespace.
\<close>

definition py_isspace :: "char \<Rightarrow> bool" where
  "py_isspace c =
     (c = CHR 0x09 \<or> c = CHR 0x0A \<or> c = CHR 0x0B \<or> c = CHR 0x0C \<or> c = CHR 0x0D \<or>
      c = CHR 0x1C \<or> c = CHR 0x1D \<or> c = CHR 0x1E \<or> c = CHR 0x1F \<or> c = CHR 0x20)"

definition str_strip :: "string \<Rightarrow> string" where
  "str_strip s = rev (dropWhile py_isspace (rev (dropWhile py_isspace s)))"

text \<open>\<^verbatim>\<open>s.split(sep)\<close> for a one-character separator; the result is never empty.\<close>

fun str_split :: "char \<Rightarrow> string \<Rightarrow> string list" where
  "str_split sep [] = [[]]"
| "str_split sep (c # cs) =
     (if c = sep then [] # str_split sep cs
      else (case str_split sep cs of [] \<Rightarrow> [[c]] | p # ps \<Rightarrow> (c # p) # ps))"

text \<open>\<^verbatim>\<open>os.path.basename\<close> on a POSIX path: what follows the last slash.\<close>

definition basename :: "string \<Rightarrow> string" where
  "basename path = rev (takeWhile (\<lambda>c. c \<noteq> CHR ''/'') (rev path))"

text \<open>
  The float operations that the track pass uses are parameters: \<^verbatim>\<open>float(s)\<close>, which
  raises \<^verbatim>\<open>ValueError\<close> (here \<open>None\<close>) on a text that is not a number, the addition, the
  literal \<^verbatim>\<open>0.000001\<close> and the formatting of a float inside an f-string.
\<close>

record 'f float_ops =
  float_of_str :: "string \<Rightarrow> 'f option"
  float_add :: "'f \<Rightarrow> 'f \<Rightarrow> 'f"
  float_0_000001 :: 'f
  float_to_str :: "'f \<Rightarrow> string"

text \<open>The exceptions that can be raised inside the two \<^verbatim>\<open>try\<close> blocks.\<close>

datatype exn = XMLSyntaxError | OSError | AttributeError | ValueError

text \<open>
  A placemark of a parsed point document, as far as \<^verbatim>\<open>process_kml_file\<close> reads it: the
  \<^verbatim>\<open>Point\<close> descendant with its \<^verbatim>\<open>coordinates\<close> child and that child's text, the
  \<^verbatim>\<open>name\<close> child and the \<^verbatim>\<open>TimeStamp/when\<close> descendant. The text of an element is
  \<open>None\<close> for an empty element.
\<close>

datatype point_geometry =
    NoPoint
  | PointWithoutCoordinates
  | PointCoordinates "string option"

record kml_placemark =
  pm_point :: point_geometry
  pm_name :: "string option option"
  pm_when :: "string option option"

datatype kml_file = KmlUnparsable exn | KmlTree "kml_placemark list"

text \<open>
  What \<^verbatim>\<open>etree.parse\<close> and the two XPath unions give for a geotag document: the texts of
  the elements matching \<^verbatim>\<open>//geo:lat | //exif:GPSLatitude | //xmp:Latitude\<close> and of those
  matching \<^verbatim>\<open>//geo:lon | //exif:GPSLongitude | //xmp:Longitude\<close>, each in document order.
\<close>

datatype xmp_file = XmpUnparsable exn | XmpTree "string option list" "string option list"

text \<open>
  A placemark of the track document. Its \<^verbatim>\<open>LineString/coordinates\<close> element is created
  before its text is computed, so the text is optional.
\<close>

record track_placemark =
  tp_name :: "string option option"
  tp_description :: "string option option"
  tp_styleUrl :: string
  tp_tessellate :: string
  tp_altitudeMode :: string
  tp_coordinates :: "string option"

text \<open>The messages printed by the two functions, by kind.\<close>

datatype diagnostic =
    KmlFileError string exn
  | XmpMissingCoordinates string
  | XmpInvalidCoordinates string
  | XmpProcessed string
  | XmpFileError string exn

record track_state =
  folder_tracks :: "track_placemark list"
  printed :: "diagnostic list"

text \<open>\<^verbatim>\<open>coord_str = f"{lon},{lat},0 {lon2},{lat2},0"\<close>\<close>

definition coord_str :: "string \<Rightarrow> string \<Rightarrow> string \<Rightarrow> string \<Rightarrow> string" where
  "coord_str lon lat lon2 lat2 = lon @ '','' @ lat @ '',0 '' @ lon2 @ '','' @ lat2 @ '',0''"

text \<open>
  One iteration of the placemark loop of \<^verbatim>\<open>process_kml_file\<close>. The result is the
  exception raised, if any, and the folder as it is at that moment: the new placemark is
  appended to the folder as soon as it is created, before \<^verbatim>\<open>float(lon)\<close> and
  \<^verbatim>\<open>float(lat)\<close> are evaluated.
\<close>

definition kml_track_step ::
  "'f float_ops \<Rightarrow> kml_placemark \<Rightarrow> track_placemark list \<Rightarrow> exn option \<times> track_placemark list"
where
  "kml_track_step ops placemark folder =
     (case pm_point placemark of
        NoPoint \<Rightarrow> (None, folder)
      | PointWithoutCoordinates \<Rightarrow> (None, folder)
      | PointCoordinates text \<Rightarrow>
          (case text of
             None \<Rightarrow> (Some AttributeError, folder)
           | Some t \<Rightarrow>
               (case str_split (CHR '','') (str_strip t) of
                  lon # lat # rest \<Rightarrow>
                    (let new_placemark =
                       \<lparr>tp_name = pm_name placemark,
                        tp_description = pm_when placemark,
                        tp_styleUrl = ''#track'',
                        tp_tessellate = ''1'',
                        tp_altitudeMode = ''clampedToGround'',
                        tp_coordinates = None\<rparr>
                     in case float_of_str ops lon of
                          None \<Rightarrow> (Some ValueError, folder @ [new_placemark])
                        | Some x \<Rightarrow>
                            (case float_of_str ops lat of
                               None \<Rightarrow> (Some ValueError, folder @ [new_placemark])
                             | Some y \<Rightarrow>
                                 (let lon2 = float_add ops x (float_0_000001 ops);
                                      lat2 = float_add ops y (float_0_000001 ops)
                                  in (None,
                                      folder @
                                        [new_placemark
                                           \<lparr>tp_coordinates :=
                                              Some (coord_str lon lat (float_to_str ops lon2)
                                                      (float_to_str ops lat2))\<rparr>]))))
                | _ \<Rightarrow> (Some ValueError, folder))))"

fun kml_track_loop ::
  "'f float_ops \<Rightarrow> kml_placemark list \<Rightarrow> track_placemark list \<Rightarrow> exn option \<times> track_placemark list"
where
  "kml_track_loop ops [] folder = (None, folder)"
| "kml_track_loop ops (placemark # placemarks) folder =
     (case kml_track_step ops placemark folder of
        (Some e, folder') \<Rightarrow> (Some e, folder')
      | (None, folder') \<Rightarrow> kml_track_loop ops placemarks folder')"

text \<open>
  \<^verbatim>\<open>process_kml_file\<close>: the whole body is one \<^verbatim>\<open>try\<close> block whose handler prints the
  error. The file is given as its path and what parsing it yields.
\<close>

definition process_kml_file ::
  "'f float_ops \<Rightarrow> string \<times> kml_file \<Rightarrow> track_state \<Rightarrow> track_state" where
  "process_kml_file ops file st =
     (case snd file of
        KmlUnparsable e \<Rightarrow> st\<lparr>printed := printed st @ [KmlFileError (fst file) e]\<rparr>
      | KmlTree placemarks \<Rightarrow>
          (case kml_track_loop ops placemarks (folder_tracks st) of
             (None, folder) \<Rightarrow> st\<lparr>folder_tracks := folder\<rparr>
           | (Some e, folder) \<Rightarrow>
               st\<lparr>folder_tracks := folder,
                  printed := printed st @ [KmlFileError (fst file) e]\<rparr>))"

text \<open>
  The description text of a track made from a geotag document, a Chinese sentence, as its
  UTF-8 bytes.
\<close>

definition xmp_description :: string where
  "xmp_description =
     [CHR 0xE4, CHR 0xBB, CHR 0x8E, CHR 0x20, CHR 0x58, CHR 0x4D, CHR 0x50, CHR 0x20,
      CHR 0xE6, CHR 0x96, CHR 0x87, CHR 0xE4, CHR 0xBB, CHR 0xB6, CHR 0xE6, CHR 0x8F,
      CHR 0x90, CHR 0xE5, CHR 0x8F, CHR 0x96, CHR 0xE7, CHR 0x9A, CHR 0x84, CHR 0xE5,
      CHR 0x9D, CHR 0x90, CHR 0xE6, CHR 0xA0, CHR 0x87]"

text \<open>
  The body of the \<^verbatim>\<open>try\<close> block of \<^verbatim>\<open>process_xmp_file\<close>: \<open>Inl\<close> is an exception that
  reaches the outer handler, \<open>Inr\<close> a normal return with the new state. The inner
  \<^verbatim>\<open>try\<close> around the two \<^verbatim>\<open>float\<close> calls catches \<^verbatim>\<open>ValueError\<close> and returns.
\<close>

definition xmp_try_body ::
  "'f float_ops \<Rightarrow> string \<times> xmp_file \<Rightarrow> track_state \<Rightarrow> exn + track_state" where
  "xmp_try_body ops file st =
     (case snd file of
        XmpUnparsable e \<Rightarrow> Inl e
      | XmpTree lat_elements lon_elements \<Rightarrow>
          (let lat = (if lat_elements \<noteq> [] then hd lat_elements else None);
               lon = (if lon_elements \<noteq> [] then hd lon_elements else None)
           in case (lat, lon) of
                (Some lat_text, Some lon_text) \<Rightarrow>
                  (case float_of_str ops lat_text of
                     None \<Rightarrow> Inr (st\<lparr>printed := printed st @ [XmpInvalidCoordinates (fst file)]\<rparr>)
                   | Some lat' \<Rightarrow>
                       (case float_of_str ops lon_text of
                          None \<Rightarrow>
                            Inr (st\<lparr>printed := printed st @ [XmpInvalidCoordinates (fst file)]\<rparr>)
                        | Some lon' \<Rightarrow>
                            (let lon2 = float_add ops lon' (float_0_000001 ops);
                                 lat2 = float_add ops lat' (float_0_000001 ops);
                                 new_placemark =
                                   \<lparr>tp_name = Some (Some (basename (fst file))),
                                    tp_description = Some (Some xmp_description),
                                    tp_styleUrl = ''#track'',
                                    tp_tessellate = ''1'',
                                    tp_altitudeMode = ''clampedToGround'',
                                    tp_coordinates =
                                      Some (coord_str (float_to_str ops lon') (float_to_str ops lat')
                                              (float_to_str ops lon2) (float_to_str ops lat2))\<rparr>
                             in Inr \<lparr>folder_tracks = folder_tracks st @ [new_placemark],
                                     printed = printed st @ [XmpProcessed (fst file)]\<rparr>)))
              | _ \<Rightarrow> Inr (st\<lparr>printed := printed st @ [XmpMissingCoordinates (fst file)]\<rparr>)))"

definition process_xmp_file ::
  "'f float_ops \<Rightarrow> string \<times> xmp_file \<Rightarrow> track_state \<Rightarrow> track_state" where
  "process_xmp_file ops file st =
     (case xmp_try_body ops file st of
        Inl e \<Rightarrow> st\<lparr>printed := printed st @ [XmpFileError (fst file) e]\<rparr>
      | Inr st' \<Rightarrow> st')"

text \<open>
  The two loops of \<^verbatim>\<open>process_tracks\<close> (\<^verbatim>\<open>main\<close> in \<^verbatim>\<open>topath.py\<close>): all point documents,
  then all geotag documents, into one folder.
\<close>

definition process_kml_files ::
  "'f float_ops \<Rightarrow> (string \<times> kml_file) list \<Rightarrow> track_state \<Rightarrow> track_state" where
  "process_kml_files ops kml_files st = fold (process_kml_file ops) kml_files st"

definition process_xmp_files ::
  "'f float_ops \<Rightarrow> (string \<times> xmp_file) list \<Rightarrow> track_state \<Rightarrow> track_state" where
  "process_xmp_files ops xmp_files st = fold (process_xmp_file ops) xmp_files st"

definition process_tracks ::
  "'f float_ops \<Rightarrow> (string \<times> kml_file) list \<Rightarrow> (string \<times> xmp_file) list \<Rightarrow> track_state" where
  "process_tracks ops kml_files xmp_files =
     process_xmp_files ops xmp_files
       (process_kml_files ops kml_files \<lparr>folder_tracks = [], printed = []\<rparr>)"

subsection \<open>\<^verbatim>\<open>cluster_points\<close>\<close>

text \<open>\<^verbatim>\<open>np.radians\<close>: degrees to radians.\<close>

definition radians :: "real \<Rightarrow> real" where
  "radians d = d * pi / 180"

text \<open>
  Modelled from the spec: the distance metric. The code only names it
  (\<^verbatim>\<open>metric='haversine'\<close>); the function is part of the clustering library and not of the
  sources. The specification calls it the haversine great-circle formula, taking a pair
  \<open>(latitude, longitude)\<close>; on radians it gives the angle between two points of the unit
  sphere. It is stated over the real numbers.
\<close>

definition haversine :: "real \<times> real \<Rightarrow> real \<times> real \<Rightarrow> real" where
  "haversine x y =
     2 * arcsin (sqrt ((sin ((fst x - fst y) / 2))\<^sup>2
                       + cos (fst x) * cos (fst y) * (sin ((snd x - snd y) / 2))\<^sup>2))"

text \<open>
  Modelled from the spec: \<^verbatim>\<open>distanceKm\<close>, the distance of two records in kilometres on a
  sphere of radius 6371 km, with degrees converted to radians internally. The code has no
  such function; it divides the threshold by 6371 instead (\<^verbatim>\<open>eps = max_distance / 6371\<close>).
\<close>

definition distanceKm :: "photo \<Rightarrow> photo \<Rightarrow> real" where
  "distanceKm a b =
     (case (a, b) of
        ((_, lat1, lon1, _), (_, lat2, lon2, _)) \<Rightarrow>
          6371 * haversine (radians lat1, radians lon1) (radians lat2, radians lon2))"

text \<open>
  Modelled from the spec: the density-based grouping. The code calls
  \<^verbatim>\<open>DBSCAN(eps=eps, min_samples=1, algorithm='ball_tree', metric='haversine').fit(coords_rad)\<close>
  and reads \<^verbatim>\<open>labels_\<close>; the algorithm is library code outside the sources. The
  specification describes it: two records are directly connected if their distance is at
  most \<open>eps\<close>; clusters are formed by chains of direct connections; with a minimum of one
  sample a single point forms its own cluster and nothing is noise; labels follow the order
  in which the first point of each cluster is met in the input.

  The model works on positions of the input. Labels are optional while the search runs,
  \<open>None\<close> standing for the library's \<open>-1\<close> of a point not yet labelled. \<open>expand\<close> gives
  the label \<open>c\<close> to every unlabelled position it takes from its stack and pushes the
  neighbours of that position.
\<close>

definition unlabelled :: "nat option list \<Rightarrow> nat" where
  "unlabelled labels = length (filter (\<lambda>l. l = None) labels)"

lemma unlabelled_update:
  "i < length labels \<Longrightarrow> labels ! i = None \<Longrightarrow>
   unlabelled (labels[i := Some c]) < unlabelled labels"
  unfolding unlabelled_def
proof (induction labels arbitrary: i)
  case Nil
  then show ?case by simp
next
  case (Cons l labels)
  then show ?case by (cases i) auto
qed

function expand ::
  "(nat \<Rightarrow> nat \<Rightarrow> bool) \<Rightarrow> nat \<Rightarrow> nat list \<Rightarrow> nat option list \<Rightarrow> nat option list" where
  "expand nb c [] labels = labels"
| "expand nb c (i # stack) labels =
     (if i < length labels \<and> labels ! i = None
      then expand nb c (filter (nb i) [0..<length labels] @ stack) (labels[i := Some c])
      else expand nb c stack labels)"
  by pat_completeness auto
termination
  by (relation "measures [\<lambda>(nb, c, stack, labels). unlabelled labels,
                          \<lambda>(nb, c, stack, labels). length stack]")
     (auto simp: unlabelled_update)

text \<open>
  The outer loop visits the positions in input order; a position that is still unlabelled
  starts the next cluster.
\<close>

fun dbscan_loop ::
  "(nat \<Rightarrow> nat \<Rightarrow> bool) \<Rightarrow> nat list \<Rightarrow> nat \<Rightarrow> nat option list \<Rightarrow> nat option list" where
  "dbscan_loop nb [] c labels = labels"
| "dbscan_loop nb (i # rest) c labels =
     (if labels ! i = None then dbscan_loop nb rest (c + 1) (expand nb c [i] labels)
      else dbscan_loop nb rest c labels)"

definition DBSCAN_labels :: "real \<Rightarrow> (real \<times> real) list \<Rightarrow> int list" where
  "DBSCAN_labels eps X =
     map (\<lambda>l. case l of None \<Rightarrow> - 1 | Some c \<Rightarrow> int c)
       (dbscan_loop (\<lambda>i j. haversine (X ! i) (X ! j) \<le> eps) [0..<length X] 0
          (replicate (length X) None))"

text \<open>
  The grouping loop of \<^verbatim>\<open>cluster_points\<close>, from the source:
  \<^verbatim>\<open>for label, (photo_name, lat, lon, timestamp) in zip(labels, photos_with_gps):\<close>
  \<^verbatim>\<open>    clusters.setdefault(label, []).append((photo_name, lat, lon, timestamp))\<close>
  The dictionary is an association list in insertion order.
\<close>

fun setdefault_append :: "'k \<Rightarrow> 'v \<Rightarrow> ('k \<times> 'v list) list \<Rightarrow> ('k \<times> 'v list) list" where
  "setdefault_append k v [] = [(k, [v])]"
| "setdefault_append k v ((k', vs) # rest) =
     (if k' = k then (k', vs @ [v]) # rest else (k', vs) # setdefault_append k v rest)"

definition group_by_label :: "'k list \<Rightarrow> 'v list \<Rightarrow> ('k \<times> 'v list) list" where
  "group_by_label labels photos_with_gps =
     fold (\<lambda>(label, p) clusters. setdefault_append label p clusters)
       (zip labels photos_with_gps) []"

text \<open>
  \<^verbatim>\<open>cluster_points\<close> with the labelling function as a parameter, and with the modelled
  labelling put in.
\<close>

definition cluster_points_with ::
  "(real \<Rightarrow> (real \<times> real) list \<Rightarrow> int list) \<Rightarrow> photo list \<Rightarrow> real \<Rightarrow> (int \<times> photo list) list" where
  "cluster_points_with fit photos_with_gps max_distance =
     (if photos_with_gps = [] then []
      else
        let coords = map (\<lambda>(_, lat, lon, _). (lat, lon)) photos_with_gps;
            coords_rad = map (\<lambda>(lat, lon). (radians lat, radians lon)) coords;
            eps = max_distance / 6371;
            labels = fit eps coords_rad
        in group_by_label labels photos_with_gps)"

definition cluster_points :: "photo list \<Rightarrow> real \<Rightarrow> (int \<times> photo list) list" where
  "cluster_points photos_with_gps max_distance =
     cluster_points_with DBSCAN_labels photos_with_gps max_distance"

text \<open>
  The radian coordinates that \<^verbatim>\<open>cluster_points\<close> hands to the labelling
  (\<^verbatim>\<open>coords_rad\<close>), and the list of members stored under a key.
\<close>

definition coords_rad_of :: "photo list \<Rightarrow> (real \<times> real) list" where
  "coords_rad_of photos = map (\<lambda>(_, lat, lon, _). (radians lat, radians lon)) photos"

definition members_of :: "('k \<times> 'v list) list \<Rightarrow> 'k \<Rightarrow> 'v list" where
  "members_of clusters k = (case map_of clusters k of None \<Rightarrow> [] | Some vs \<Rightarrow> vs)"

text \<open>
  Direct connection, in the words of the specification: two records are directly
  connected iff their distance is at most the maximal distance; the relation is taken
  among the records of a given list. On positions, \<open>edges\<close> is the relation of a
  neighbourhood test among the first \<open>n\<close> positions.
\<close>

definition directly_connected :: "real \<Rightarrow> photo list \<Rightarrow> (photo \<times> photo) set" where
  "directly_connected max_distance photos =
     {(a, b). a \<in> set photos \<and> b \<in> set photos \<and> distanceKm a b \<le> max_distance}"

definition edges :: "(nat \<Rightarrow> nat \<Rightarrow> bool) \<Rightarrow> nat \<Rightarrow> (nat \<times> nat) set" where
  "edges nb n = {(i, j). i < n \<and> j < n \<and> nb i j}"

subsection \<open>A small instance for the examples\<close>

text \<open>
  An instance of the float interface over the rationals that knows the two texts
  \<^verbatim>\<open>10.0\<close> and \<^verbatim>\<open>20.0\<close>, and a placemark with a name and a coordinate text. They
  serve only as concrete inputs.
\<close>

definition example_float_ops :: "rat float_ops" where
  "example_float_ops =
     \<lparr>float_of_str = (\<lambda>s. if s = ''10.0'' then Some 10 else if s = ''20.0'' then Some 20 else None),
      float_add = (+),
      float_0_000001 = 1 / 1000000,
      float_to_str = (\<lambda>x. if x = 10 then ''10.0'' else if x = 20 then ''20.0''
                          else if x = 10000001 / 1000000 then ''10.000001''
                          else if x = 20000001 / 1000000 then ''20.000001'' else ''?'')\<rparr>"

definition example_placemark :: "string \<Rightarrow> string \<Rightarrow> kml_placemark" where
  "example_placemark name coords =
     \<lparr>pm_point = PointCoordinates (Some coords), pm_name = Some (Some name), pm_when = None\<rparr>"

text \<open>
  Four photos on the equator, at longitudes 0, 90, 0.01 and 0.02 degrees. One hundredth of
  a degree of longitude is about 1.1 km there; \<open>example_near\<close> is the neighbourhood test
  for the threshold of 1.8 km on these four positions, in hundredths of a degree.
\<close>

definition example_photos :: "photo list" where
  "example_photos =
     [(''a.jpg'', 0, 0, None), (''d.jpg'', 0, 90, Some ''2023:05:17 14:30:00''),
      (''b.jpg'', 0, 1 / 100, None), (''c.jpg'', 0, 2 / 100, None)]"

definition example_near :: "nat \<Rightarrow> nat \<Rightarrow> bool" where
  "example_near i j = (\<bar>[0, 9000, 1, 2] ! i - [0, 9000, 1, 2] ! j\<bar> \<le> (1 :: int))"

section \<open>Properties\<close>

subsection \<open>\<^verbatim>\<open>sanitize_path\<close>\<close>

lemma str_replace_single:
  "str_replace old [new] s = map (\<lambda>c. if c = old then new else c) s"
  by (induction s) auto

lemma str_replace_delete:
  "str_replace old [] s = filter (\<lambda>c. c \<noteq> old) s"
  by (induction s) auto

text \<open>
  Claim C5, as stated, fails: a colon of the input is not turned into an underscore, it is
  deleted. The string \<^verbatim>\<open>C:/photos\<close> is sanitised to \<^verbatim>\<open>C_photos\<close>, where the specified
  function gives \<^verbatim>\<open>C__photos\<close>.
\<close>

theorem sanitize_path_colon_counterexample:
  "sanitize_path ''C:/photos'' = ''C_photos'' \<and>
   sanitize_as_specified ''C:/photos'' = ''C__photos'' \<and>
   sanitize_path ''C:/photos'' \<noteq> sanitize_as_specified ''C:/photos''"
  by (simp add: sanitize_path_def sanitize_as_specified_def)

text \<open>
  Claim C5, amended: \<^verbatim>\<open>sanitize_path\<close> deletes every colon and replaces every slash,
  backslash and space by an underscore, leaving all other characters as they are and in
  their order; the result contains no colon, slash, backslash or space.
\<close>

theorem sanitize_path_deletes_colons:
  "sanitize_path path =
     map (\<lambda>c. if c = CHR ''/'' \<or> c = CHR 0x5C \<or> c = CHR '' '' then CHR ''_'' else c)
       (filter (\<lambda>c. c \<noteq> CHR '':'') path) \<and>
   CHR '':'' \<notin> set (sanitize_path path) \<and> CHR ''/'' \<notin> set (sanitize_path path) \<and>
   CHR 0x5C \<notin> set (sanitize_path path) \<and> CHR '' '' \<notin> set (sanitize_path path)"
proof -
  have eq: "sanitize_path path =
     map (\<lambda>c. if c = CHR ''/'' \<or> c = CHR 0x5C \<or> c = CHR '' '' then CHR ''_'' else c)
       (filter (\<lambda>c. c \<noteq> CHR '':'') path)"
    by (simp add: sanitize_path_def str_replace_single str_replace_delete)
  show ?thesis
    unfolding eq by auto
qed

subsection \<open>Time stamps of \<^verbatim>\<open>create_kml\<close>\<close>

lemma str_replace_count_length:
  "length (str_replace_count old [new] n s) = length s"
  by (induction s arbitrary: n) auto

lemma str_replace_count_nth:
  "i < length s \<Longrightarrow>
   str_replace_count old [new] n s ! i =
     (if s ! i = old \<and> count_list (take i s) old < n then new else s ! i)"
proof (induction s arbitrary: n i)
  case Nil
  then show ?case by simp
next
  case (Cons c cs)
  show ?case
  proof (cases i)
    case 0
    then show ?thesis by simp
  next
    case (Suc j)
    with Cons.prems have j: "j < length cs" by simp
    show ?thesis
      using Cons.IH [OF j, of "n - 1"] Cons.IH [OF j, of n] Suc
      by (cases n) auto
  qed
qed

lemma str_replace_count_zero: "str_replace_count old new 0 s = s"
  by (induction s) auto

lemma str_replace_count_skip:
  "old \<notin> set pre \<Longrightarrow>
   str_replace_count old new n (pre @ rest) = pre @ str_replace_count old new n rest"
  by (induction pre) auto

lemma str_replace_keep:
  "old \<notin> set s \<Longrightarrow> str_replace old new s = s"
  by (induction s) auto

lemma str_replace_append:
  "str_replace old new (xs @ ys) = str_replace old new xs @ str_replace old new ys"
  by (induction xs) auto

lemma format_timestamp_length: "length (format_timestamp ts) = length ts + 1"
  by (simp add: format_timestamp_def str_replace_single str_replace_count_length)

lemma format_timestamp_last: "format_timestamp ts ! length ts = CHR ''Z''"
  by (simp add: format_timestamp_def str_replace_single str_replace_count_length nth_append)

lemma format_timestamp_nth:
  assumes "i < length ts"
  shows "format_timestamp ts ! i =
     (if ts ! i = CHR '':'' \<and> count_list (take i ts) (CHR '':'') < 2 then CHR ''-''
      else if ts ! i = CHR '' '' then CHR ''T'' else ts ! i)"
  using assms
  by (simp add: format_timestamp_def str_replace_single str_replace_count_length nth_append
      str_replace_count_nth)

lemma format_timestamp_exif:
  assumes "CHR '':'' \<notin> set (Y @ M)" and "CHR '' '' \<notin> set (Y @ M @ D @ h @ m @ s)"
  shows "format_timestamp (Y @ '':'' @ M @ '':'' @ D @ '' '' @ h @ '':'' @ m @ '':'' @ s) =
         Y @ ''-'' @ M @ ''-'' @ D @ ''T'' @ h @ '':'' @ m @ '':'' @ s @ ''Z''"
proof -
  have "str_replace_count (CHR '':'') ''-'' 2
          (Y @ '':'' @ M @ '':'' @ D @ '' '' @ h @ '':'' @ m @ '':'' @ s) =
        Y @ ''-'' @ M @ ''-'' @ D @ '' '' @ h @ '':'' @ m @ '':'' @ s"
    using assms(1) by (simp add: str_replace_count_skip str_replace_count_zero)
  then show ?thesis
    using assms(2) by (simp add: format_timestamp_def str_replace_append str_replace_keep)
qed

text \<open>
  Claim C6. A placemark whose photo carries a non-empty capture time has exactly one time
  stamp. It is one character longer than the input and ends in \<^verbatim>\<open>Z\<close>; at every position
  before that it has a hyphen where the input has one of its first two colons, a \<^verbatim>\<open>T\<close>
  where the input has a space, and the input's own character otherwise, so nothing is
  converted between time zones. In particular an EXIF date and time
  \<^verbatim>\<open>YYYY:MM:DD HH:MM:SS\<close> becomes \<^verbatim>\<open>YYYY-MM-DDTHH:MM:SSZ\<close>.
\<close>

theorem create_kml_timestamp_normalised:
  assumes "ts \<noteq> []"
  shows "emitted_timestamps (placemark_elements (photo_name, lat, lon, Some ts)) =
           [format_timestamp ts] \<and>
         length (format_timestamp ts) = length ts + 1 \<and>
         format_timestamp ts ! length ts = CHR ''Z'' \<and>
         (\<forall>i<length ts. format_timestamp ts ! i =
            (if ts ! i = CHR '':'' \<and> count_list (take i ts) (CHR '':'') < 2 then CHR ''-''
             else if ts ! i = CHR '' '' then CHR ''T'' else ts ! i)) \<and>
         (\<forall>Y M D h m s.
            ts = Y @ '':'' @ M @ '':'' @ D @ '' '' @ h @ '':'' @ m @ '':'' @ s \<and>
            CHR '':'' \<notin> set (Y @ M) \<and> CHR '' '' \<notin> set (Y @ M @ D @ h @ m @ s) \<longrightarrow>
            format_timestamp ts =
              Y @ ''-'' @ M @ ''-'' @ D @ ''T'' @ h @ '':'' @ m @ '':'' @ s @ ''Z'')"
proof -
  have "emitted_timestamps (placemark_elements (photo_name, lat, lon, Some ts)) =
           [format_timestamp ts]"
    using assms by simp
  moreover have "\<forall>Y M D h m s.
            ts = Y @ '':'' @ M @ '':'' @ D @ '' '' @ h @ '':'' @ m @ '':'' @ s \<and>
            CHR '':'' \<notin> set (Y @ M) \<and> CHR '' '' \<notin> set (Y @ M @ D @ h @ m @ s) \<longrightarrow>
            format_timestamp ts =
              Y @ ''-'' @ M @ ''-'' @ D @ ''T'' @ h @ '':'' @ m @ '':'' @ s @ ''Z''"
    using format_timestamp_exif by blast
  ultimately show ?thesis
    using format_timestamp_length format_timestamp_last format_timestamp_nth by blast
qed

theorem create_kml_timestamp_normalised_witness:
  "emitted_timestamps
     (placemark_elements (''IMG_0001.jpg'', 39.9, 116.4, Some ''2023:05:17 14:30:00'')) =
     [''2023-05-17T14:30:00Z'']"
proof -
  let ?ts = "''2023:05:17 14:30:00''"
  have ne: "?ts \<noteq> []" by simp
  note th = create_kml_timestamp_normalised [OF ne, of "''IMG_0001.jpg''" "39.9" "116.4"]
  have shape: "?ts = ''2023'' @ '':'' @ ''05'' @ '':'' @ ''17'' @ '' '' @ ''14'' @ '':'' @ ''30'' @ '':'' @ ''00'' \<and>
            CHR '':'' \<notin> set (''2023'' @ ''05'') \<and>
            CHR '' '' \<notin> set (''2023'' @ ''05'' @ ''17'' @ ''14'' @ ''30'' @ ''00'')"
    by simp
  from th have "format_timestamp ?ts = ''2023'' @ ''-'' @ ''05'' @ ''-'' @ ''17'' @ ''T'' @ ''14'' @ '':'' @ ''30'' @ '':'' @ ''00'' @ ''Z''"
    using shape by blast
  with th show ?thesis by simp
qed

subsection \<open>The cluster filter\<close>

lemma filter_step_retained:
  "3 < length (snd kv) \<Longrightarrow>
   filter_step folder tot kv st =
     st\<lparr>valid_cluster_count := valid_cluster_count st + 1,
        written := written st @
          [(valid_cluster_count st + 1, snd kv,
            create_kml (snd kv) (valid_cluster_count st + 1) tot folder)]\<rparr>"
  by (simp add: filter_step_def Let_def)

lemma filter_step_discarded:
  "\<not> 3 < length (snd kv) \<Longrightarrow>
   filter_step folder tot kv st =
     st\<lparr>total_discarded_points := total_discarded_points st + length (snd kv)\<rparr>"
  by (simp add: filter_step_def Let_def)

lemma filter_fold:
  "fold (filter_step folder tot) clusters st =
     \<lparr>valid_cluster_count =
        valid_cluster_count st + length (filter (\<lambda>c. 3 < length c) (map snd clusters)),
      total_discarded_points =
        total_discarded_points st
          + sum_list (map length (filter (\<lambda>c. \<not> 3 < length c) (map snd clusters))),
      written =
        written st @
          map (\<lambda>(n, c). (n, c, create_kml c n tot folder))
            (zip [valid_cluster_count st + 1 ..<
                    valid_cluster_count st + 1 + length (filter (\<lambda>c. 3 < length c) (map snd clusters))]
               (filter (\<lambda>c. 3 < length c) (map snd clusters)))\<rparr>"
proof (induction clusters arbitrary: st)
  case Nil
  then show ?case by simp
next
  case (Cons kv clusters)
  show ?case
  proof (cases "3 < length (snd kv)")
    case True
    then show ?thesis
      by (simp add: Cons.IH filter_step_retained upt_conv_Cons del: upt_Suc)
  next
    case False
    then show ?thesis
      by (simp add: Cons.IH filter_step_discarded)
  qed
qed

text \<open>
  Claim C3. The documents written are exactly the clusters with more than three members,
  in the iteration order of the mapping; a cluster of four members passes the test
  \<^verbatim>\<open>len(c) > 3\<close> and one of three does not. The retained groups are numbered
  \<open>1, \<dots>, K\<close> in that order, both in the file name and in the title, each title carries
  the total \<open>K\<close>, and the log reports the number of discarded clusters and the sum of
  their member counts.
\<close>

theorem filter_clusters_retains_more_than_three:
  fixes clusters :: "(int \<times> photo list) list"
  defines "retained \<equiv> filter (\<lambda>c. 3 < length c) (map snd clusters)"
      and "discarded \<equiv> filter (\<lambda>c. \<not> 3 < length c) (map snd clusters)"
  shows "map (\<lambda>(n, c, d). c) (documents (filter_clusters folder clusters)) = retained \<and>
         map (\<lambda>(n, c, d). n) (documents (filter_clusters folder clusters)) =
           [1 ..< length retained + 1] \<and>
         map (\<lambda>(n, c, d). doc_cluster_number d) (documents (filter_clusters folder clusters)) =
           [1 ..< length retained + 1] \<and>
         map (\<lambda>(n, c, d). doc_total_clusters d) (documents (filter_clusters folder clusters)) =
           replicate (length retained) (length retained) \<and>
         log_valid_clusters (filter_clusters folder clusters) = length retained \<and>
         log_discarded_clusters (filter_clusters folder clusters) = int (length discarded) \<and>
         log_discarded_points (filter_clusters folder clusters) =
           sum_list (map length discarded)"
proof -
  let ?r = "filter_clusters folder clusters"
  have len: "length (filter (\<lambda>c. 3 < length c) (map snd clusters)) = length retained"
    by (simp add: retained_def)
  have docs: "documents ?r =
      map (\<lambda>(n, c). (n, c, create_kml c n (length retained) folder))
        (zip [1 ..< length retained + 1] retained)"
    by (simp add: filter_clusters_def Let_def filter_fold retained_def)
  have m1: "map (\<lambda>(n, c, d). c) (documents ?r) = map snd (zip [1 ..< length retained + 1] retained)"
    unfolding docs by (simp add: case_prod_unfold comp_def)
  have m2: "map (\<lambda>(n, c, d). n) (documents ?r) = map fst (zip [1 ..< length retained + 1] retained)"
    unfolding docs by (simp add: case_prod_unfold comp_def)
  have m3: "map (\<lambda>(n, c, d). doc_cluster_number d) (documents ?r) =
      map fst (zip [1 ..< length retained + 1] retained)"
    unfolding docs by (simp add: case_prod_unfold comp_def create_kml_def)
  have m4: "map (\<lambda>(n, c, d). doc_total_clusters d) (documents ?r) =
      map (\<lambda>_. length retained) (zip [1 ..< length retained + 1] retained)"
    unfolding docs by (simp add: case_prod_unfold comp_def create_kml_def)
  have v: "log_valid_clusters ?r = length retained"
    by (simp add: filter_clusters_def Let_def filter_fold retained_def)
  have "length retained + length discarded = length clusters"
    using sum_length_filter_compl [of "\<lambda>c. 3 < length c" "map snd clusters"]
    by (simp add: retained_def discarded_def)
  then have dc: "log_discarded_clusters ?r = int (length discarded)"
    by (simp add: filter_clusters_def Let_def filter_fold retained_def)
  have dp: "log_discarded_points ?r = sum_list (map length discarded)"
    by (simp add: filter_clusters_def Let_def filter_fold discarded_def)
  show ?thesis
    using m1 m2 m3 m4 v dc dp by (simp add: map_replicate_const del: upt_Suc)
qed


theorem filter_clusters_retains_more_than_three_witness:
  "map (\<lambda>(n, c, d). (n, map fst c))
     (documents (filter_clusters ''trip''
        [(0, [(''a'', 0, 0, None), (''b'', 0, 0, None), (''c'', 0, 0, None)]),
         (1, [(''d'', 1, 1, None), (''e'', 1, 1, None), (''f'', 1, 1, None), (''g'', 1, 1, None)])])) =
     [(1, [''d'', ''e'', ''f'', ''g''])] \<and>
   log_discarded_clusters (filter_clusters ''trip''
        [(0, [(''a'', 0, 0, None), (''b'', 0, 0, None), (''c'', 0, 0, None)]),
         (1, [(''d'', 1, 1, None), (''e'', 1, 1, None), (''f'', 1, 1, None), (''g'', 1, 1, None)])]) = 1 \<and>
   log_discarded_points (filter_clusters ''trip''
        [(0, [(''a'', 0, 0, None), (''b'', 0, 0, None), (''c'', 0, 0, None)]),
         (1, [(''d'', 1, 1, None), (''e'', 1, 1, None), (''f'', 1, 1, None), (''g'', 1, 1, None)])]) = 3"
proof -
  let ?cs = "[(0::int, [(''a'', 0::real, 0::real, None :: string option), (''b'', 0, 0, None), (''c'', 0, 0, None)]),
         (1, [(''d'', 1, 1, None), (''e'', 1, 1, None), (''f'', 1, 1, None), (''g'', 1, 1, None)])]"
  note th = filter_clusters_retains_more_than_three [of "''trip''" ?cs]
  have c: "map (\<lambda>(n, c, d). c) (documents (filter_clusters ''trip'' ?cs)) =
      [[(''d'', 1, 1, None), (''e'', 1, 1, None), (''f'', 1, 1, None), (''g'', 1, 1, None)]]"
    using th by simp
  have n: "map (\<lambda>(n, c, d). n) (documents (filter_clusters ''trip'' ?cs)) = [1]"
    using th by simp
  have "map (\<lambda>(n, c, d). (n, map fst c)) (documents (filter_clusters ''trip'' ?cs)) =
      map (\<lambda>(n, c). (n, map fst c))
        (zip (map (\<lambda>(n, c, d). n) (documents (filter_clusters ''trip'' ?cs)))
             (map (\<lambda>(n, c, d). c) (documents (filter_clusters ''trip'' ?cs))))"
    by (simp add: zip_map_map case_prod_unfold zip_same_conv_map)
  then show ?thesis
    unfolding c n using th by simp
qed

subsection \<open>The track pass over point documents\<close>

lemma kml_track_loop_append:
  "fst (kml_track_loop ops earlier folder) = None \<Longrightarrow>
   kml_track_loop ops (earlier @ later) folder =
     kml_track_loop ops later (snd (kml_track_loop ops earlier folder))"
proof (induction earlier arbitrary: folder)
  case Nil
  then show ?case by simp
next
  case (Cons pm earlier)
  obtain r folder' where step: "kml_track_step ops pm folder = (r, folder')"
    by (cases "kml_track_step ops pm folder")
  show ?case
  proof (cases r)
    case None
    with step Cons.prems have "fst (kml_track_loop ops earlier folder') = None" by simp
    from Cons.IH [OF this] step None show ?thesis by simp
  next
    case (Some e)
    with step Cons.prems show ?thesis by simp
  qed
qed

lemma kml_track_loop_raise:
  "fst (kml_track_step ops failing folder) = Some e \<Longrightarrow>
   kml_track_loop ops (failing # remaining) folder = kml_track_step ops failing folder"
  by (cases "kml_track_step ops failing folder") auto

lemma kml_track_step_extends:
  "\<exists>new. snd (kml_track_step ops pm folder) = folder @ new \<and> length new \<le> 1"
  by (auto simp: kml_track_step_def Let_def split: point_geometry.splits option.splits list.splits)

lemma kml_track_loop_extends:
  "\<exists>new. snd (kml_track_loop ops pms folder) = folder @ new"
proof (induction pms arbitrary: folder)
  case Nil
  then show ?case by simp
next
  case (Cons pm pms)
  obtain r folder' where step: "kml_track_step ops pm folder = (r, folder')"
    by (cases "kml_track_step ops pm folder")
  obtain new where new: "folder' = folder @ new"
    using kml_track_step_extends [of ops pm folder] step by auto
  show ?case
  proof (cases r)
    case None
    obtain new' where "snd (kml_track_loop ops pms folder') = folder' @ new'"
      using Cons.IH by blast
    with step None new show ?thesis by simp
  next
    case (Some e)
    with step new show ?thesis by simp
  qed
qed

text \<open>
  Claim C10. Converting a point document is not atomic. When the placemarks before some
  placemark convert without an exception and that placemark raises one (its coordinate
  text has no comma, a coordinate is not a number, or the element has no text), the folder
  keeps every track made from the earlier placemarks, at most one unfinished placemark is
  added for the failing one, the placemarks after it have no effect, and the error is
  printed once.
\<close>

theorem kml_failure_keeps_earlier_tracks:
  assumes earlier: "fst (kml_track_loop ops earlier (folder_tracks st)) = None"
      and failing: "fst (kml_track_step ops failing
                           (snd (kml_track_loop ops earlier (folder_tracks st)))) = Some e"
  shows "prefix (folder_tracks (process_kml_file ops (path, KmlTree earlier) st))
           (folder_tracks (process_kml_file ops (path, KmlTree (earlier @ failing # remaining)) st)) \<and>
         length (folder_tracks (process_kml_file ops (path, KmlTree (earlier @ failing # remaining)) st))
           \<le> length (folder_tracks (process_kml_file ops (path, KmlTree earlier) st)) + 1 \<and>
         process_kml_file ops (path, KmlTree (earlier @ failing # remaining)) st =
           process_kml_file ops (path, KmlTree (earlier @ [failing])) st \<and>
         printed (process_kml_file ops (path, KmlTree (earlier @ failing # remaining)) st) =
           printed st @ [KmlFileError path e]"
proof -
  let ?f = "snd (kml_track_loop ops earlier (folder_tracks st))"
  have pre: "folder_tracks (process_kml_file ops (path, KmlTree earlier) st) = ?f"
    using earlier
    by (cases "kml_track_loop ops earlier (folder_tracks st)") (simp add: process_kml_file_def)
  have loop: "kml_track_loop ops (earlier @ failing # rest) (folder_tracks st) =
      kml_track_step ops failing ?f" for rest
    using kml_track_loop_append [OF earlier] kml_track_loop_raise [OF failing] by simp
  obtain folder' where step: "kml_track_step ops failing ?f = (Some e, folder')"
    using failing by (cases "kml_track_step ops failing ?f") auto
  have res: "process_kml_file ops (path, KmlTree (earlier @ failing # rest)) st =
      st\<lparr>folder_tracks := folder', printed := printed st @ [KmlFileError path e]\<rparr>" for rest
    by (simp add: process_kml_file_def loop step)
  obtain new where new: "folder' = ?f @ new" "length new \<le> 1"
    using kml_track_step_extends [of ops failing ?f] step by auto
  show ?thesis
    unfolding res pre using new res [of "[]"] by simp
qed

lemma example_step_good:
  "kml_track_step example_float_ops (example_placemark n ''10.0,20.0'') folder =
     (None, folder @ [\<lparr>tp_name = Some (Some n), tp_description = None, tp_styleUrl = ''#track'',
        tp_tessellate = ''1'', tp_altitudeMode = ''clampedToGround'',
        tp_coordinates = Some ''10.0,20.0,0 10.000001,20.000001,0''\<rparr>])"
  by (simp add: kml_track_step_def example_float_ops_def example_placemark_def str_strip_def
      py_isspace_def coord_str_def)

lemma example_step_non_numeric:
  "kml_track_step example_float_ops (example_placemark n ''east,20.0'') folder =
     (Some ValueError, folder @ [\<lparr>tp_name = Some (Some n), tp_description = None,
        tp_styleUrl = ''#track'', tp_tessellate = ''1'', tp_altitudeMode = ''clampedToGround'',
        tp_coordinates = None\<rparr>])"
  by (simp add: kml_track_step_def example_float_ops_def example_placemark_def str_strip_def
      py_isspace_def coord_str_def)

lemma example_step_no_comma:
  "kml_track_step example_float_ops (example_placemark n ''10.0'') folder = (Some ValueError, folder)"
  by (simp add: kml_track_step_def example_float_ops_def example_placemark_def str_strip_def
      py_isspace_def coord_str_def)

theorem kml_failure_keeps_earlier_tracks_witness:
  "folder_tracks
     (process_kml_file example_float_ops
        (''a.kml'', KmlTree ([example_placemark ''p1'' ''10.0,20.0''] @
            example_placemark ''p2'' ''east,20.0'' # [example_placemark ''p3'' ''10.0,20.0'']))
        \<lparr>folder_tracks = [], printed = []\<rparr>) =
     [\<lparr>tp_name = Some (Some ''p1''), tp_description = None, tp_styleUrl = ''#track'',
        tp_tessellate = ''1'', tp_altitudeMode = ''clampedToGround'',
        tp_coordinates = Some ''10.0,20.0,0 10.000001,20.000001,0''\<rparr>,
      \<lparr>tp_name = Some (Some ''p2''), tp_description = None, tp_styleUrl = ''#track'',
        tp_tessellate = ''1'', tp_altitudeMode = ''clampedToGround'',
        tp_coordinates = None\<rparr>] \<and>
   printed
     (process_kml_file example_float_ops
        (''a.kml'', KmlTree ([example_placemark ''p1'' ''10.0,20.0''] @
            example_placemark ''p2'' ''east,20.0'' # [example_placemark ''p3'' ''10.0,20.0'']))
        \<lparr>folder_tracks = [], printed = []\<rparr>) = [KmlFileError ''a.kml'' ValueError] \<and>
   folder_tracks
     (process_kml_file example_float_ops
        (''b.kml'', KmlTree ([example_placemark ''p1'' ''10.0,20.0''] @
            example_placemark ''p2'' ''10.0'' # [example_placemark ''p3'' ''10.0,20.0'']))
        \<lparr>folder_tracks = [], printed = []\<rparr>) =
     [\<lparr>tp_name = Some (Some ''p1''), tp_description = None, tp_styleUrl = ''#track'',
        tp_tessellate = ''1'', tp_altitudeMode = ''clampedToGround'',
        tp_coordinates = Some ''10.0,20.0,0 10.000001,20.000001,0''\<rparr>]"
proof -
  let ?st = "\<lparr>folder_tracks = [], printed = []\<rparr>"
  let ?p1 = "example_placemark ''p1'' ''10.0,20.0''"
  have e: "fst (kml_track_loop example_float_ops [?p1] (folder_tracks ?st)) = None"
    by (simp add: example_step_good)
  have f1: "fst (kml_track_step example_float_ops (example_placemark ''p2'' ''east,20.0'')
              (snd (kml_track_loop example_float_ops [?p1] (folder_tracks ?st)))) = Some ValueError"
    by (simp add: example_step_good example_step_non_numeric)
  have f2: "fst (kml_track_step example_float_ops (example_placemark ''p2'' ''10.0'')
              (snd (kml_track_loop example_float_ops [?p1] (folder_tracks ?st)))) = Some ValueError"
    by (simp add: example_step_good example_step_no_comma)
  note a = kml_failure_keeps_earlier_tracks [OF e f1, of "''a.kml''" "[example_placemark ''p3'' ''10.0,20.0'']"]
  note b = kml_failure_keeps_earlier_tracks [OF e f2, of "''b.kml''" "[example_placemark ''p3'' ''10.0,20.0'']"]
  have a': "process_kml_file example_float_ops
        (''a.kml'', KmlTree ([?p1] @ [example_placemark ''p2'' ''east,20.0''])) ?st =
      \<lparr>folder_tracks = [\<lparr>tp_name = Some (Some ''p1''), tp_description = None, tp_styleUrl = ''#track'',
        tp_tessellate = ''1'', tp_altitudeMode = ''clampedToGround'',
        tp_coordinates = Some ''10.0,20.0,0 10.000001,20.000001,0''\<rparr>,
      \<lparr>tp_name = Some (Some ''p2''), tp_description = None, tp_styleUrl = ''#track'',
        tp_tessellate = ''1'', tp_altitudeMode = ''clampedToGround'',
        tp_coordinates = None\<rparr>], printed = [KmlFileError ''a.kml'' ValueError]\<rparr>"
    by (simp add: process_kml_file_def example_step_good example_step_non_numeric)
  have b': "process_kml_file example_float_ops
        (''b.kml'', KmlTree ([?p1] @ [example_placemark ''p2'' ''10.0''])) ?st =
      \<lparr>folder_tracks = [\<lparr>tp_name = Some (Some ''p1''), tp_description = None, tp_styleUrl = ''#track'',
        tp_tessellate = ''1'', tp_altitudeMode = ''clampedToGround'',
        tp_coordinates = Some ''10.0,20.0,0 10.000001,20.000001,0''\<rparr>],
       printed = [KmlFileError ''b.kml'' ValueError]\<rparr>"
    by (simp add: process_kml_file_def example_step_good example_step_no_comma)
  from a a' b b' show ?thesis by simp
qed

subsection \<open>The track pass over geotag documents\<close>

lemma xmp_try_body_skip:
  assumes "lat_elements = [] \<or> lon_elements = [] \<or>
           hd lat_elements = None \<or> hd lon_elements = None \<or>
           (\<exists>t. hd lat_elements = Some t \<and> float_of_str ops t = None) \<or>
           (\<exists>t. hd lon_elements = Some t \<and> float_of_str ops t = None)"
  shows "xmp_try_body ops (path, XmpTree lat_elements lon_elements) st =
           Inr (st\<lparr>printed := printed st @ [XmpMissingCoordinates path]\<rparr>) \<or>
         xmp_try_body ops (path, XmpTree lat_elements lon_elements) st =
           Inr (st\<lparr>printed := printed st @ [XmpInvalidCoordinates path]\<rparr>)"
  using assms
  by (auto simp: xmp_try_body_def Let_def split: option.splits)

text \<open>
  Claim C7. A geotag document in which a latitude or a longitude alias finds no element
  (or only an empty one), or in which a found text is not a number, is skipped: the body
  of the \<^verbatim>\<open>try\<close> block returns normally, the folder of tracks is unchanged, exactly one
  diagnostic is printed, and the loop goes on with the remaining documents.
\<close>

theorem xmp_unresolved_or_non_numeric_is_skipped:
  assumes "lat_elements = [] \<or> lon_elements = [] \<or>
           hd lat_elements = None \<or> hd lon_elements = None \<or>
           (\<exists>t. hd lat_elements = Some t \<and> float_of_str ops t = None) \<or>
           (\<exists>t. hd lon_elements = Some t \<and> float_of_str ops t = None)"
  shows "(\<exists>st'. xmp_try_body ops (path, XmpTree lat_elements lon_elements) st = Inr st') \<and>
         folder_tracks (process_xmp_file ops (path, XmpTree lat_elements lon_elements) st) =
           folder_tracks st \<and>
         (printed (process_xmp_file ops (path, XmpTree lat_elements lon_elements) st) =
            printed st @ [XmpMissingCoordinates path] \<or>
          printed (process_xmp_file ops (path, XmpTree lat_elements lon_elements) st) =
            printed st @ [XmpInvalidCoordinates path]) \<and>
         process_xmp_files ops ((path, XmpTree lat_elements lon_elements) # remaining) st =
           process_xmp_files ops remaining
             (process_xmp_file ops (path, XmpTree lat_elements lon_elements) st)"
proof -
  from xmp_try_body_skip [OF assms, of path st]
  show ?thesis
    by (auto simp: process_xmp_file_def process_xmp_files_def)
qed

theorem xmp_unresolved_or_non_numeric_is_skipped_witness:
  "process_xmp_files example_float_ops
     [(''out/a.xmp'', XmpTree [] [Some ''10.0'']),
      (''out/b.xmp'', XmpTree [Some ''north''] [Some ''10.0'']),
      (''out/c.xmp'', XmpTree [Some ''20.0''] [Some ''10.0''])]
     \<lparr>folder_tracks = [], printed = []\<rparr> =
   \<lparr>folder_tracks =
      [\<lparr>tp_name = Some (Some ''c.xmp''), tp_description = Some (Some xmp_description),
        tp_styleUrl = ''#track'', tp_tessellate = ''1'', tp_altitudeMode = ''clampedToGround'',
        tp_coordinates = Some ''10.0,20.0,0 10.000001,20.000001,0''\<rparr>],
    printed = [XmpMissingCoordinates ''out/a.xmp'', XmpInvalidCoordinates ''out/b.xmp'',
               XmpProcessed ''out/c.xmp'']\<rparr>"
proof -
  let ?st = "\<lparr>folder_tracks = [], printed = []\<rparr>"
  let ?a = "(''out/a.xmp'', XmpTree [] [Some ''10.0''])"
  let ?b = "(''out/b.xmp'', XmpTree [Some ''north''] [Some ''10.0''])"
  let ?c = "(''out/c.xmp'', XmpTree [Some ''20.0''] [Some ''10.0''])"
  have ha: "[] = [] \<or> [Some ''10.0''] = [] \<or>
           hd [] = None \<or> hd [Some ''10.0''] = None \<or>
           (\<exists>t. hd [] = Some t \<and> float_of_str example_float_ops t = None) \<or>
           (\<exists>t. hd [Some ''10.0''] = Some t \<and> float_of_str example_float_ops t = None)"
    by simp
  have hb: "[Some ''north''] = [] \<or> [Some ''10.0''] = [] \<or>
           hd [Some ''north''] = None \<or> hd [Some ''10.0''] = None \<or>
           (\<exists>t. hd [Some ''north''] = Some t \<and> float_of_str example_float_ops t = None) \<or>
           (\<exists>t. hd [Some ''10.0''] = Some t \<and> float_of_str example_float_ops t = None)"
    by (simp add: example_float_ops_def)
  note a = xmp_unresolved_or_non_numeric_is_skipped [OF ha, of "''out/a.xmp''" ?st "[?b, ?c]"]
  have sa: "process_xmp_file example_float_ops ?a ?st =
      \<lparr>folder_tracks = [], printed = [XmpMissingCoordinates ''out/a.xmp'']\<rparr>"
    by (simp add: process_xmp_file_def xmp_try_body_def)
  note b = xmp_unresolved_or_non_numeric_is_skipped [OF hb, of "''out/b.xmp''"
      "\<lparr>folder_tracks = [], printed = [XmpMissingCoordinates ''out/a.xmp'']\<rparr>" "[?c]"]
  have sb: "process_xmp_file example_float_ops ?b
      \<lparr>folder_tracks = [], printed = [XmpMissingCoordinates ''out/a.xmp'']\<rparr> =
      \<lparr>folder_tracks = [],
       printed = [XmpMissingCoordinates ''out/a.xmp'', XmpInvalidCoordinates ''out/b.xmp'']\<rparr>"
    by (simp add: process_xmp_file_def xmp_try_body_def example_float_ops_def)
  have sc: "process_xmp_files example_float_ops [?c]
      \<lparr>folder_tracks = [],
       printed = [XmpMissingCoordinates ''out/a.xmp'', XmpInvalidCoordinates ''out/b.xmp'']\<rparr> =
      \<lparr>folder_tracks =
      [\<lparr>tp_name = Some (Some ''c.xmp''), tp_description = Some (Some xmp_description),
        tp_styleUrl = ''#track'', tp_tessellate = ''1'', tp_altitudeMode = ''clampedToGround'',
        tp_coordinates = Some ''10.0,20.0,0 10.000001,20.000001,0''\<rparr>],
    printed = [XmpMissingCoordinates ''out/a.xmp'', XmpInvalidCoordinates ''out/b.xmp'',
               XmpProcessed ''out/c.xmp'']\<rparr>"
    by (simp add: process_xmp_files_def process_xmp_file_def xmp_try_body_def example_float_ops_def
        basename_def coord_str_def)
  from a b show ?thesis
    unfolding sa sb sc by simp
qed

subsection \<open>Grouping, labelling and distance: auxiliary facts\<close>

lemma setdefault_append_keys:
  "map fst (setdefault_append k v clusters) =
     (if k \<in> set (map fst clusters) then map fst clusters else map fst clusters @ [k])"
  by (induction k v clusters rule: setdefault_append.induct) auto

lemma setdefault_append_map_of:
  "map_of (setdefault_append k v clusters) =
     (map_of clusters)(k \<mapsto> members_of clusters k @ [v])"
  by (induction k v clusters rule: setdefault_append.induct) (auto simp: members_of_def fun_eq_iff)

lemma setdefault_append_mset:
  "mset (concat (map snd (setdefault_append k v clusters))) =
     mset (concat (map snd clusters)) + {#v#}"
  by (induction k v clusters rule: setdefault_append.induct) auto

lemma setdefault_append_distinct:
  "distinct (map fst clusters) \<Longrightarrow> distinct (map fst (setdefault_append k v clusters))"
  by (simp add: setdefault_append_keys)

lemma fold_setdefault_distinct:
  "distinct (map fst clusters) \<Longrightarrow>
   distinct (map fst (fold (\<lambda>(label, p) clusters. setdefault_append label p clusters) zs clusters))"
  by (induction zs arbitrary: clusters) (auto simp: setdefault_append_distinct)

lemma fold_setdefault_mset:
  "mset (concat (map snd (fold (\<lambda>(label, p) clusters. setdefault_append label p clusters) zs clusters))) =
     mset (concat (map snd clusters)) + mset (map snd zs)"
  by (induction zs arbitrary: clusters) (auto simp: setdefault_append_mset)

lemma fold_setdefault_map_of:
  "map_of (fold (\<lambda>(label, p) clusters. setdefault_append label p clusters) zs clusters) k =
     (if k \<in> fst ` set zs \<or> k \<in> fst ` set clusters
      then Some (members_of clusters k @ map snd (filter (\<lambda>z. fst z = k) zs))
      else None)"
proof (induction zs arbitrary: clusters)
  case Nil
  then show ?case
    by (auto simp: members_of_def map_of_eq_None_iff split: option.splits)
next
  case (Cons z zs)
  obtain l p where z: "z = (l, p)" by (cases z)
  have keys: "fst ` set (setdefault_append l p clusters) = insert l (fst ` set clusters)"
    using setdefault_append_keys [of l p clusters]
    by (metis (no_types, lifting) Un_insert_right append_Nil2 insert_absorb list.set_map
        list.simps(15) set_append)
  show ?case
    unfolding z
    by (auto simp: Cons.IH keys members_of_def setdefault_append_map_of)
qed

lemma group_by_label_members:
  assumes "(k, ms) \<in> set (group_by_label labels photos)"
  shows "ms = map snd (filter (\<lambda>z. fst z = k) (zip labels photos)) \<and> k \<in> set labels"
proof -
  have d: "distinct (map fst (group_by_label labels photos))"
    unfolding group_by_label_def by (rule fold_setdefault_distinct) simp
  with assms have "map_of (group_by_label labels photos) k = Some ms"
    by simp
  then show ?thesis
    unfolding group_by_label_def fold_setdefault_map_of
    by (auto simp: members_of_def split: if_splits dest: set_zip_leftD)
qed

declare expand.simps(2) [simp del]

lemma expand_step:
  "i < length labels \<Longrightarrow> labels ! i = None \<Longrightarrow>
   expand nb c (i # stack) labels =
     expand nb c (filter (nb i) [0..<length labels] @ stack) (labels[i := Some c])"
  by (simp add: expand.simps(2))

lemma expand_skip:
  "\<not> (i < length labels \<and> labels ! i = None) \<Longrightarrow>
   expand nb c (i # stack) labels = expand nb c stack labels"
  by (auto simp: expand.simps(2))

lemma expand_length: "length (expand nb c stack labels) = length labels"
  by (induction nb c stack labels rule: expand.induct) (auto simp: expand.simps(2))

lemma expand_keeps:
  "labels ! j \<noteq> None \<Longrightarrow> expand nb c stack labels ! j = labels ! j"
proof (induction nb c stack labels rule: expand.induct)
  case (1 nb c labels)
  then show ?case by simp
next
  case (2 nb c i stack labels)
  show ?case
  proof (cases "i < length labels \<and> labels ! i = None")
    case True
    with "2.prems" have ne: "j \<noteq> i" by auto
    then have "labels[i := Some c] ! j = labels ! j" by simp
    with "2.IH"(1) [OF True] "2.prems" True show ?thesis by (simp add: expand_step)
  next
    case False
    with "2.IH"(2) "2.prems" show ?thesis by (auto simp: expand_skip)
  qed
qed

lemma expand_seed:
  assumes "i < length labels" and "labels ! i = None"
  shows "expand nb c (i # stack) labels ! i = Some c"
proof -
  have "labels[i := Some c] ! i \<noteq> None" using assms by simp
  from expand_keeps [OF this] assms show ?thesis by (simp add: expand_step)
qed

lemma expand_origin_in:
  "expand nb c stack labels ! j = Some k \<Longrightarrow>
   labels ! j = Some k \<or>
   (k = c \<and>
    (\<exists>s \<in> set stack.
       (s, j) \<in> (edges (\<lambda>a b. nb a b \<and> expand nb c stack labels ! a = Some c
                                   \<and> expand nb c stack labels ! b = Some c)
                    (length labels))\<^sup>*))"
proof (induction nb c stack labels rule: expand.induct)
  case (1 nb c labels)
  then show ?case by simp
next
  case (2 nb c i stack labels)
  let ?n = "length labels"
  let ?R = "expand nb c (i # stack) labels"
  let ?E = "edges (\<lambda>a b. nb a b \<and> ?R ! a = Some c \<and> ?R ! b = Some c) ?n"
  show ?case
  proof (cases "i < ?n \<and> labels ! i = None")
    case True
    let ?labels' = "labels[i := Some c]"
    let ?stack' = "filter (nb i) [0..<?n] @ stack"
    have eqR: "?R = expand nb c ?stack' ?labels'"
      using True by (simp add: expand_step)
    have Ri: "?R ! i = Some c"
      using True by (simp add: expand_seed)
    from "2.prems" have res: "expand nb c ?stack' ?labels' ! j = Some k"
      by (simp only: eqR)
    from "2.IH"(1) [OF True res]
    consider (old) "?labels' ! j = Some k"
      | (new) s where "k = c" "s \<in> set ?stack'" "(s, j) \<in> ?E\<^sup>*"
      unfolding eqR by auto
    then show ?thesis
    proof cases
      case old
      show ?thesis
      proof (cases "j = i")
        case True
        with old \<open>i < ?n \<and> labels ! i = None\<close> have "k = c" by simp
        with True show ?thesis by auto
      next
        case False
        with old show ?thesis by simp
      qed
    next
      case new
      show ?thesis
      proof (cases "s \<in> set stack")
        case True
        with new show ?thesis by auto
      next
        case False
        with new(2) have s: "s < ?n" "nb i s" by auto
        have Rs: "?R ! s = Some c"
          using new(3)
        proof (cases rule: converse_rtranclE)
          case base
          with "2.prems" new(1) show ?thesis by simp
        next
          case (step y)
          then show ?thesis by (simp add: edges_def)
        qed
        from s True Ri Rs have "(i, s) \<in> ?E" by (simp add: edges_def)
        from this new(3) have "(i, j) \<in> ?E\<^sup>*" by (rule converse_rtrancl_into_rtrancl)
        with new(1) show ?thesis by auto
      qed
    qed
  next
    case False
    have eqR: "?R = expand nb c stack labels"
      using False by (simp add: expand_skip)
    from "2.prems" have "expand nb c stack labels ! j = Some k" by (simp only: eqR)
    from "2.IH"(2) [OF False this] show ?thesis
      unfolding eqR by auto
  qed
qed

lemma dbscan_loop_start:
  "labels ! i = None \<Longrightarrow>
   dbscan_loop nb (i # rest) c labels = dbscan_loop nb rest (c + 1) (expand nb c [i] labels)"
  by simp

lemma dbscan_loop_skip:
  "labels ! i \<noteq> None \<Longrightarrow> dbscan_loop nb (i # rest) c labels = dbscan_loop nb rest c labels"
  by auto

declare dbscan_loop.simps(2) [simp del]

lemma dbscan_loop_length: "length (dbscan_loop nb order c labels) = length labels"
  by (induction nb order c labels rule: dbscan_loop.induct)
     (auto simp: expand_length dbscan_loop.simps(2))

lemma dbscan_loop_keeps:
  "labels ! j \<noteq> None \<Longrightarrow> dbscan_loop nb order c labels ! j \<noteq> None"
proof (induction nb order c labels rule: dbscan_loop.induct)
  case (1 nb c labels)
  then show ?case by simp
next
  case (2 nb i rest c labels)
  show ?case
  proof (cases "labels ! i = None")
    case True
    from "2.prems" have "expand nb c [i] labels ! j \<noteq> None"
      by (simp add: expand_keeps)
    from "2.IH"(1) [OF True this] True show ?thesis by (simp add: dbscan_loop_start)
  next
    case False
    show ?thesis
      unfolding dbscan_loop_skip [OF False] by (rule "2.IH"(2) [OF False "2.prems"])
  qed
qed

lemma dbscan_loop_labels_all:
  "j \<in> set order \<Longrightarrow> j < length labels \<Longrightarrow> dbscan_loop nb order c labels ! j \<noteq> None"
proof (induction nb order c labels rule: dbscan_loop.induct)
  case (1 nb c labels)
  then show ?case by simp
next
  case (2 nb i rest c labels)
  show ?case
  proof (cases "j = i")
    case True
    show ?thesis
    proof (cases "labels ! i = None")
      case None: True
      from "2.prems" \<open>j = i\<close> None have "expand nb c [i] labels ! j = Some c"
        by (simp add: expand_seed)
      then have "expand nb c [i] labels ! j \<noteq> None" by simp
      from dbscan_loop_keeps [OF this] None show ?thesis by (simp add: dbscan_loop_start)
    next
      case False
      with True have "labels ! j \<noteq> None" by simp
      from dbscan_loop_keeps [OF this] show ?thesis
        unfolding dbscan_loop_skip [OF False] .
    qed
  next
    case False
    with "2.prems" have j: "j \<in> set rest" by simp
    show ?thesis
    proof (cases "labels ! i = None")
      case True
      from "2.IH"(1) [OF True j] "2.prems" True show ?thesis
        by (simp add: expand_length dbscan_loop_start)
    next
      case False
      show ?thesis
        unfolding dbscan_loop_skip [OF False] by (rule "2.IH"(2) [OF False j "2.prems"(2)])
    qed
  qed
qed

lemma edges_mono:
  assumes "\<And>a b. a < n \<Longrightarrow> b < n \<Longrightarrow> nb a b \<Longrightarrow> nb' a b"
  shows "(edges nb n)\<^sup>* \<subseteq> (edges nb' n)\<^sup>*"
  by (rule rtrancl_mono) (use assms in \<open>auto simp: edges_def\<close>)

lemma dbscan_loop_connected_in:
  assumes sym: "\<And>a b. nb a b \<Longrightarrow> nb b a"
      and bound: "\<And>j k. j < length labels \<Longrightarrow> labels ! j = Some k \<Longrightarrow> k < c"
      and conn: "\<And>j j' k. j < length labels \<Longrightarrow> j' < length labels \<Longrightarrow>
                  labels ! j = Some k \<Longrightarrow> labels ! j' = Some k \<Longrightarrow>
                  (j, j') \<in> (edges (\<lambda>a b. nb a b \<and> labels ! a = Some k \<and> labels ! b = Some k)
                              (length labels))\<^sup>*"
      and res: "dbscan_loop nb order c labels ! j = Some k"
               "dbscan_loop nb order c labels ! j' = Some k"
      and lt: "j < length labels" "j' < length labels"
  shows "(j, j') \<in> (edges (\<lambda>a b. nb a b \<and> dbscan_loop nb order c labels ! a = Some k
                                      \<and> dbscan_loop nb order c labels ! b = Some k)
                      (length labels))\<^sup>*"
  using sym bound conn res lt
proof (induction nb order c labels rule: dbscan_loop.induct)
  case (1 nb c labels)
  then show ?case by simp
next
  case (2 nb i rest c labels)
  let ?n = "length labels"
  show ?case
  proof (cases "labels ! i = None")
    case False
    show ?thesis
      unfolding dbscan_loop_skip [OF False]
      by (rule "2.IH"(2) [OF False "2.prems"(1)])
         (use "2.prems" dbscan_loop_skip [OF False, of nb rest c] in auto)
  next
    case True
    let ?labels' = "expand nb c [i] labels"
    let ?E = "\<lambda>L l. edges (\<lambda>a b. nb a b \<and> L ! a = Some l \<and> L ! b = Some l) ?n"
    have len: "length ?labels' = ?n" by (simp add: expand_length)
    have keep: "?labels' ! a = Some l" if "labels ! a = Some l" for a l
      using expand_keeps [of labels a nb c "[i]"] that by simp
    have symE: "sym (?E ?labels' c)"
      using "2.prems"(1) by (auto simp: sym_def edges_def)
    have origin: "labels ! a = Some l \<or> (l = c \<and> (i, a) \<in> (?E ?labels' c)\<^sup>*)"
      if "?labels' ! a = Some l" for a l
      using expand_origin_in [OF that] by auto
    have bound': "l < c + 1" if "a < length ?labels'" "?labels' ! a = Some l" for a l
      using origin [OF that(2)] "2.prems"(2) [of a l] that(1) len by auto
    have conn': "(a, b) \<in> (edges (\<lambda>x y. nb x y \<and> ?labels' ! x = Some l \<and> ?labels' ! y = Some l)
                              (length ?labels'))\<^sup>*"
      if "a < length ?labels'" "b < length ?labels'" "?labels' ! a = Some l" "?labels' ! b = Some l"
      for a b l
    proof -
      from that len have a: "a < ?n" and b: "b < ?n" by simp_all
      from origin [OF that(3)] origin [OF that(4)]
      consider "labels ! a = Some l" "labels ! b = Some l"
        | "l = c" "(i, a) \<in> (?E ?labels' c)\<^sup>*" "(i, b) \<in> (?E ?labels' c)\<^sup>*"
        | "labels ! a = Some l" "l = c" | "labels ! b = Some l" "l = c"
        by auto
      then have "(a, b) \<in> (?E ?labels' l)\<^sup>*"
      proof cases
        case 1
        then have "(a, b) \<in> (?E labels l)\<^sup>*" using "2.prems"(3) a b by blast
        moreover have "(?E labels l)\<^sup>* \<subseteq> (?E ?labels' l)\<^sup>*"
          by (rule edges_mono) (use keep in auto)
        ultimately show ?thesis by blast
      next
        case 2
        from symE have "sym ((?E ?labels' c)\<^sup>*)" by (rule sym_rtrancl)
        with 2(2) have "(a, i) \<in> (?E ?labels' c)\<^sup>*" by (auto dest: symD)
        from this 2(3) have "(a, b) \<in> (?E ?labels' c)\<^sup>*" by (rule rtrancl_trans)
        with 2(1) show ?thesis by simp
      next
        case 3
        with "2.prems"(2) [OF a] show ?thesis by auto
      next
        case 4
        with "2.prems"(2) [OF b] show ?thesis by auto
      qed
      then show ?thesis by (simp add: len)
    qed
    have "(j, j') \<in> (edges (\<lambda>a b. nb a b \<and> dbscan_loop nb rest (c + 1) ?labels' ! a = Some k
                                      \<and> dbscan_loop nb rest (c + 1) ?labels' ! b = Some k)
                      (length ?labels'))\<^sup>*"
      by (rule "2.IH"(1) [OF True "2.prems"(1) bound' conn'])
         (use "2.prems" dbscan_loop_start [OF True, of nb rest c] len in auto)
    then show ?thesis
      by (simp add: len dbscan_loop_start [OF True])
  qed
qed

lemma haversine_sym: "haversine x y = haversine y x"
proof -
  have "sin ((a - b) / 2) ^ 2 = sin ((b - a) / 2) ^ 2" for a b :: real
  proof -
    have "(a - b) / 2 = - ((b - a) / 2)" by argo
    then have "sin ((a - b) / 2) = - sin ((b - a) / 2)" by (metis sin_minus)
    then show ?thesis by simp
  qed
  then show ?thesis
    by (simp add: haversine_def mult.commute)
qed

lemma haversine_self: "haversine x x = 0"
  by (simp add: haversine_def)

lemma haversine_radicand:
  fixes p1 p2 l1 l2 :: real
  defines "h \<equiv> (sin ((p1 - p2) / 2))\<^sup>2 + cos p1 * cos p2 * (sin ((l1 - l2) / 2))\<^sup>2"
  shows "0 \<le> h \<and> h \<le> 1"
proof -
  let ?u = "(sin ((p1 - p2) / 2))\<^sup>2"
  let ?s = "(sin ((l1 - l2) / 2))\<^sup>2"
  let ?c = "cos (p1 + p2)"
  have prod: "cos p1 * cos p2 = (cos (p1 - p2) + ?c) / 2"
    by (simp add: cos_add cos_diff)
  have "2 * ((p1 - p2) / 2) = p1 - p2" by argo
  with cos_double_sin [of "(p1 - p2) / 2"] have dbl: "cos (p1 - p2) = 1 - 2 * ?u"
    by (simp only:)
  have h: "h = ?u * (1 - ?s) + ?s * ((1 + ?c) / 2)"
    unfolding h_def prod dbl by algebra
  have sq: "0 \<le> (sin t)\<^sup>2 \<and> (sin t)\<^sup>2 \<le> 1" for t :: real
    using sin_cos_squared_add [of t] zero_le_power2 [of "cos t"] zero_le_power2 [of "sin t"]
    by linarith
  have u: "0 \<le> ?u" "?u \<le> 1" and s: "0 \<le> ?s" "?s \<le> 1"
    using sq by simp_all
  have c1: "0 \<le> (1 + ?c) / 2"
    using cos_ge_minus_one [of "p1 + p2"] by argo
  have c2: "(1 + ?c) / 2 \<le> 1"
    using cos_le_one [of "p1 + p2"] by argo
  note c = c1 c2
  have a: "0 \<le> ?u * (1 - ?s)" and b: "0 \<le> ?s * ((1 + ?c) / 2)"
    using u s c by simp_all
  have a': "?u * (1 - ?s) \<le> 1 - ?s"
    using mult_right_mono [of ?u 1 "1 - ?s"] u s by simp
  have b': "?s * ((1 + ?c) / 2) \<le> ?s"
    using mult_left_mono [of "(1 + ?c) / 2" 1 ?s] s c by simp
  have "0 \<le> h" unfolding h using a b by linarith
  moreover have "h \<le> 1" unfolding h using a' b' by linarith
  ultimately show ?thesis ..
qed

lemma haversine_nonneg: "0 \<le> haversine x y"
proof -
  let ?h = "(sin ((fst x - fst y) / 2))\<^sup>2 + cos (fst x) * cos (fst y) * (sin ((snd x - snd y) / 2))\<^sup>2"
  from haversine_radicand [of "fst x" "fst y" "snd x" "snd y"]
  have "0 \<le> ?h" "?h \<le> 1" by simp_all
  then have "sqrt ?h \<in> {0..1}" by simp
  then have "0 \<le> arcsin (sqrt ?h)" by (rule arcsin_nonneg)
  then show ?thesis by (simp add: haversine_def)
qed

lemma DBSCAN_labels_length: "length (DBSCAN_labels eps X) = length X"
  by (simp add: DBSCAN_labels_def dbscan_loop_length)

lemma dbscan_all_labelled:
  "None \<notin> set (dbscan_loop nb [0..<length labels] c labels)"
proof
  let ?L = "dbscan_loop nb [0..<length labels] c labels"
  assume "None \<in> set ?L"
  then obtain j where j: "j < length ?L" "?L ! j = None"
    by (auto simp: in_set_conv_nth)
  then have "j < length labels" by (simp add: dbscan_loop_length)
  then have "?L ! j \<noteq> None"
    by (intro dbscan_loop_labels_all) simp_all
  with j(2) show False by simp
qed

lemma DBSCAN_labels_nonneg:
  assumes "l \<in> set (DBSCAN_labels eps X)"
  shows "0 \<le> l"
proof -
  let ?nb = "\<lambda>i j. haversine (X ! i) (X ! j) \<le> eps"
  let ?L = "dbscan_loop ?nb [0..<length X] 0 (replicate (length X) None)"
  from assms obtain l' where l': "l' \<in> set ?L" "l = (case l' of None \<Rightarrow> - 1 | Some c \<Rightarrow> int c)"
    by (auto simp: DBSCAN_labels_def)
  have "None \<notin> set ?L"
    using dbscan_all_labelled [of ?nb "replicate (length X) None" 0] by simp
  with l'(1) have "l' \<noteq> None" by metis
  then obtain c where "l' = Some c" by blast
  with l'(2) show ?thesis by simp
qed

lemma DBSCAN_labels_connected_in:
  assumes i: "i < length X" and j: "j < length X"
      and eq: "DBSCAN_labels eps X ! i = k" "DBSCAN_labels eps X ! j = k"
  shows "(i, j) \<in> (edges (\<lambda>a b. haversine (X ! a) (X ! b) \<le> eps
                                  \<and> DBSCAN_labels eps X ! a = k \<and> DBSCAN_labels eps X ! b = k)
                      (length X))\<^sup>*"
proof -
  let ?nb = "\<lambda>i j. haversine (X ! i) (X ! j) \<le> eps"
  let ?init = "replicate (length X) (None :: nat option)"
  let ?L = "dbscan_loop ?nb [0..<length X] 0 ?init"
  have len: "length ?L = length X" by (simp add: dbscan_loop_length)
  have lab: "DBSCAN_labels eps X ! a = (case ?L ! a of None \<Rightarrow> - 1 | Some c \<Rightarrow> int c)"
    if "a < length X" for a
    using that len by (simp add: DBSCAN_labels_def)
  have "?L ! i \<noteq> None" "?L ! j \<noteq> None"
    using i j by (simp_all add: dbscan_loop_labels_all)
  then obtain a b where ab: "?L ! i = Some a" "?L ! j = Some b" by auto
  with eq i j have k: "k = int a" "k = int b"
    by (simp_all add: lab)
  then have "a = b" by simp
  have "(i, j) \<in> (edges (\<lambda>x y. ?nb x y \<and> ?L ! x = Some a \<and> ?L ! y = Some a) (length ?init))\<^sup>*"
  proof (rule dbscan_loop_connected_in [where c = 0 and order = "[0..<length X]" and k = a])
    show "?nb a b \<Longrightarrow> ?nb b a" for a b by (simp add: haversine_sym)
    show "?L ! i = Some a" by (rule ab(1))
    show "?L ! j = Some a" using ab(2) \<open>a = b\<close> by simp
  qed (use i j in simp_all)
  moreover have "(edges (\<lambda>x y. ?nb x y \<and> ?L ! x = Some a \<and> ?L ! y = Some a) (length X))\<^sup>* \<subseteq>
      (edges (\<lambda>a b. ?nb a b \<and> DBSCAN_labels eps X ! a = k \<and> DBSCAN_labels eps X ! b = k)
         (length X))\<^sup>*"
    by (rule edges_mono) (simp add: lab k)
  ultimately show ?thesis by auto
qed

lemma cluster_points_with_unfold:
  "photos \<noteq> [] \<Longrightarrow>
   cluster_points_with fit photos d =
     group_by_label (fit (d / 6371) (coords_rad_of photos)) photos"
proof -
  have "map (\<lambda>(lat, lon). (radians lat, radians lon)) (map (\<lambda>(_, lat, lon, _). (lat, lon)) photos) =
        coords_rad_of photos"
    by (simp add: coords_rad_of_def case_prod_unfold comp_def)
  then show "photos \<noteq> [] \<Longrightarrow> ?thesis"
    by (simp add: cluster_points_with_def Let_def)
qed

lemma coords_rad_of_length: "length (coords_rad_of photos) = length photos"
  by (simp add: coords_rad_of_def)

lemma cluster_points_with_empty: "cluster_points_with fit [] d = []"
  by (simp add: cluster_points_with_def)

lemma group_by_label_mset:
  "length labels = length photos \<Longrightarrow>
   mset (concat (map snd (group_by_label labels photos))) = mset photos"
  by (simp add: group_by_label_def fold_setdefault_mset)

lemma group_by_label_distinct: "distinct (map fst (group_by_label labels photos))"
  unfolding group_by_label_def by (rule fold_setdefault_distinct) simp

lemma group_by_label_keys:
  "length labels = length photos \<Longrightarrow> fst ` set (group_by_label labels photos) = set labels"
proof -
  assume len: "length labels = length photos"
  have "k \<in> fst ` set (group_by_label labels photos) \<longleftrightarrow> k \<in> set labels" for k
  proof -
    have "k \<in> fst ` set (group_by_label labels photos) \<longleftrightarrow>
          map_of (group_by_label labels photos) k \<noteq> None"
      by (simp add: map_of_eq_None_iff)
    also have "\<dots> \<longleftrightarrow> k \<in> fst ` set (zip labels photos)"
      by (simp add: group_by_label_def fold_setdefault_map_of)
    also have "\<dots> \<longleftrightarrow> k \<in> set labels"
      using len by (metis list.set_map map_fst_zip)
    finally show ?thesis .
  qed
  then show ?thesis by blast
qed

lemma group_by_label_position:
  assumes len: "length labels = length photos" and i: "i < length photos"
  shows "\<exists>ms. (labels ! i, ms) \<in> set (group_by_label labels photos) \<and> photos ! i \<in> set ms"
proof -
  let ?k = "labels ! i"
  let ?ms = "map snd (filter (\<lambda>z. fst z = ?k) (zip labels photos))"
  have z: "(?k, photos ! i) \<in> set (zip labels photos)"
    using len i by (auto simp: set_zip)
  then have "?k \<in> fst ` set (zip labels photos)" by force
  then have "map_of (group_by_label labels photos) ?k = Some ?ms"
    by (simp add: group_by_label_def fold_setdefault_map_of members_of_def)
  then have "(?k, ?ms) \<in> set (group_by_label labels photos)" by (rule map_of_SomeD)
  moreover have "photos ! i \<in> set ?ms" using z by force
  ultimately show ?thesis by blast
qed

lemma group_by_label_member_position:
  assumes "(k, ms) \<in> set (group_by_label labels photos)" and "p \<in> set ms"
  shows "\<exists>i. i < length photos \<and> i < length labels \<and> labels ! i = k \<and> photos ! i = p"
proof -
  from group_by_label_members [OF assms(1)] assms(2)
  have "(k, p) \<in> set (zip labels photos)" by auto
  then show ?thesis by (auto simp: set_zip)
qed

lemma group_by_label_subseq:
  assumes "(k, ms) \<in> set (group_by_label labels photos)"
  shows "subseq ms photos"
proof -
  from group_by_label_members [OF assms]
  have ms: "ms = map snd (filter (\<lambda>z. fst z = k) (zip labels photos))" by simp
  have "subseq ms (map snd (zip labels photos))"
    unfolding ms by (intro subseq_map subseq_filter_left)
  moreover have "map snd (zip labels photos) = take (length labels) photos"
    by (simp add: map_snd_zip_take min_def)
  moreover have "subseq (take (length labels) photos) photos"
    by (metis append_take_drop_id sublist_appendI sublist_imp_subseq prefix_imp_sublist take_is_prefix)
  ultimately show ?thesis by (metis subseq_order.trans)
qed

lemma cluster_points_unfold:
  "photos \<noteq> [] \<Longrightarrow>
   cluster_points photos d =
     group_by_label (DBSCAN_labels (d / 6371) (coords_rad_of photos)) photos"
  by (simp add: cluster_points_def cluster_points_with_unfold)

lemma cluster_labels_length:
  "length (DBSCAN_labels eps (coords_rad_of photos)) = length photos"
  by (simp add: DBSCAN_labels_length coords_rad_of_length)

lemma expand_cong:
  assumes "\<And>i j. i < length labels \<Longrightarrow> j < length labels \<Longrightarrow> nb i j = nb' i j"
  shows "expand nb c stack labels = expand nb' c stack labels"
  using assms
proof (induction nb c stack labels rule: expand.induct)
  case (1 nb c labels)
  then show ?case by simp
next
  case (2 nb c i stack labels)
  show ?case
  proof (cases "i < length labels \<and> labels ! i = None")
    case True
    then have f: "filter (nb i) [0..<length labels] = filter (nb' i) [0..<length labels]"
      using "2.prems" by (intro filter_cong) simp_all
    have "expand nb c (filter (nb i) [0..<length labels] @ stack) (labels[i := Some c]) =
          expand nb' c (filter (nb i) [0..<length labels] @ stack) (labels[i := Some c])"
      by (rule "2.IH"(1) [OF True]) (use "2.prems" in simp)
    with True f show ?thesis by (simp add: expand_step)
  next
    case False
    have "expand nb c stack labels = expand nb' c stack labels"
      by (rule "2.IH"(2) [OF False]) (use "2.prems" in simp)
    with False show ?thesis by (simp add: expand_skip)
  qed
qed

lemma dbscan_loop_cong:
  assumes "\<And>i j. i < length labels \<Longrightarrow> j < length labels \<Longrightarrow> nb i j = nb' i j"
  shows "dbscan_loop nb order c labels = dbscan_loop nb' order c labels"
  using assms
proof (induction nb order c labels rule: dbscan_loop.induct)
  case (1 nb c labels)
  then show ?case by simp
next
  case (2 nb i rest c labels)
  have e: "expand nb c [i] labels = expand nb' c [i] labels"
    by (rule expand_cong) (use "2.prems" in simp)
  show ?case
  proof (cases "labels ! i = None")
    case True
    have "dbscan_loop nb rest (c + 1) (expand nb c [i] labels) =
          dbscan_loop nb' rest (c + 1) (expand nb c [i] labels)"
      by (rule "2.IH"(1) [OF True]) (use "2.prems" in \<open>simp add: expand_length\<close>)
    with True e show ?thesis by (simp add: dbscan_loop_start)
  next
    case False
    have "dbscan_loop nb rest c labels = dbscan_loop nb' rest c labels"
      by (rule "2.IH"(2) [OF False]) (use "2.prems" in simp)
    then show ?thesis by (simp only: dbscan_loop_skip [OF False])
  qed
qed

lemma haversine_equator:
  assumes "\<bar>x - y\<bar> \<le> 180"
  shows "haversine (radians 0, radians x) (radians 0, radians y) = \<bar>x - y\<bar> * pi / 180"
proof -
  let ?t = "(radians x - radians y) / 2"
  have t: "?t = (x - y) * pi / 360" unfolding radians_def by argo
  have "\<bar>?t\<bar> = \<bar>x - y\<bar> * pi / 360"
    unfolding t by (simp add: abs_mult)
  also have "\<dots> \<le> 180 * pi / 360"
    using assms by (intro divide_right_mono mult_right_mono) simp_all
  finally have bound: "\<bar>?t\<bar> \<le> pi / 2" by simp
  have abs_sin: "\<bar>sin ?t\<bar> = sin \<bar>?t\<bar>"
  proof (cases "0 \<le> ?t")
    case True
    with bound have "0 \<le> sin ?t" by (intro sin_ge_zero) (use pi_ge_zero in linarith)+
    with True show ?thesis by simp
  next
    case False
    then have neg: "\<bar>?t\<bar> = - ?t" by linarith
    with bound have "0 \<le> sin (- ?t)" by (intro sin_ge_zero) (use pi_ge_zero in linarith)+
    then have "\<bar>sin ?t\<bar> = - sin ?t" by simp
    then show ?thesis unfolding neg by simp
  qed
  have "haversine (radians 0, radians x) (radians 0, radians y) = 2 * arcsin (sqrt ((sin ?t)\<^sup>2))"
    by (simp add: haversine_def radians_def)
  also have "\<dots> = 2 * arcsin (sin \<bar>?t\<bar>)"
    by (simp only: real_sqrt_abs abs_sin)
  also have "\<dots> = 2 * \<bar>?t\<bar>"
    using bound by (subst arcsin_sin) simp_all
  also have "\<dots> = \<bar>x - y\<bar> * pi / 180"
    unfolding t by (simp add: abs_mult)
  finally show ?thesis .
qed

lemma equator_near:
  assumes "\<bar>x - y\<bar> \<le> 1 / 100"
  shows "haversine (radians 0, radians x) (radians 0, radians y) \<le> 1.8 / 6371"
proof -
  have "\<bar>x - y\<bar> * pi / 180 \<le> (1 / 100) * 4 / 180"
    using assms pi_less_4 by (intro divide_right_mono mult_mono) simp_all
  also have "\<dots> \<le> 1.8 / 6371" by simp
  finally have "\<bar>x - y\<bar> * pi / 180 \<le> 1.8 / 6371" .
  moreover from assms have "\<bar>x - y\<bar> \<le> 180" by linarith
  ultimately show ?thesis
    by (simp only: haversine_equator)
qed

lemma pi_ge_three: "3 \<le> pi"
proof -
  have "sin (pi / 6) \<le> pi / 6"
    by (rule sin_x_le_x) simp
  then show ?thesis by (simp add: sin_30)
qed

lemma equator_far:
  assumes "2 / 100 \<le> \<bar>x - y\<bar>" and "\<bar>x - y\<bar> \<le> 180"
  shows "\<not> haversine (radians 0, radians x) (radians 0, radians y) \<le> 1.8 / 6371"
proof -
  have "(1.8 :: real) / 6371 < (2 / 100) * 3 / 180" by simp
  also have "\<dots> \<le> \<bar>x - y\<bar> * pi / 180"
    using assms(1) pi_ge_three by (intro divide_right_mono mult_mono) simp_all
  finally have "\<not> \<bar>x - y\<bar> * pi / 180 \<le> 1.8 / 6371" by linarith
  then show ?thesis
    unfolding haversine_equator [OF assms(2)] .
qed

lemma example_coords:
  "coords_rad_of example_photos =
     [(radians 0, radians 0), (radians 0, radians 90),
      (radians 0, radians (1 / 100)), (radians 0, radians (2 / 100))]"
  by (simp add: coords_rad_of_def example_photos_def)

lemma example_nb:
  assumes "i < 4" and "j < 4"
  shows "(haversine (coords_rad_of example_photos ! i) (coords_rad_of example_photos ! j)
            \<le> 1.8 / 6371) = example_near i j"
proof -
  have i: "i = 0 \<or> i = 1 \<or> i = 2 \<or> i = 3" using assms(1) by linarith
  have j: "j = 0 \<or> j = 1 \<or> j = 2 \<or> j = 3" using assms(2) by linarith
  have near: "haversine (radians 0, radians x) (radians 0, radians y) \<le> 1.8 / 6371 \<longleftrightarrow> True"
    if "\<bar>x - y\<bar> \<le> 1 / 100" for x y
    using equator_near [OF that] by simp
  have far: "haversine (radians 0, radians x) (radians 0, radians y) \<le> 1.8 / 6371 \<longleftrightarrow> False"
    if "2 / 100 \<le> \<bar>x - y\<bar>" "\<bar>x - y\<bar> \<le> 180" for x y
    using equator_far [OF that] by simp
  have n00: "haversine (radians 0, radians 0) (radians 0, radians 0) \<le> 1.8 / 6371 \<longleftrightarrow> True"
    by (rule near) simp
  have n22: "haversine (radians 0, radians (1 / 100)) (radians 0, radians (1 / 100)) \<le> 1.8 / 6371 \<longleftrightarrow> True"
    by (rule near) simp
  have n33: "haversine (radians 0, radians (2 / 100)) (radians 0, radians (2 / 100)) \<le> 1.8 / 6371 \<longleftrightarrow> True"
    by (rule near) simp
  have n11: "haversine (radians 0, radians 90) (radians 0, radians 90) \<le> 1.8 / 6371 \<longleftrightarrow> True"
    by (rule near) simp
  have n02: "haversine (radians 0, radians 0) (radians 0, radians (1 / 100)) \<le> 1.8 / 6371 \<longleftrightarrow> True"
    by (rule near) simp
  have n20: "haversine (radians 0, radians (1 / 100)) (radians 0, radians 0) \<le> 1.8 / 6371 \<longleftrightarrow> True"
    by (rule near) simp
  have n23: "haversine (radians 0, radians (1 / 100)) (radians 0, radians (2 / 100)) \<le> 1.8 / 6371 \<longleftrightarrow> True"
    by (rule near) simp
  have n32: "haversine (radians 0, radians (2 / 100)) (radians 0, radians (1 / 100)) \<le> 1.8 / 6371 \<longleftrightarrow> True"
    by (rule near) simp
  have f03: "haversine (radians 0, radians 0) (radians 0, radians (2 / 100)) \<le> 1.8 / 6371 \<longleftrightarrow> False"
    by (rule far) simp_all
  have f30: "haversine (radians 0, radians (2 / 100)) (radians 0, radians 0) \<le> 1.8 / 6371 \<longleftrightarrow> False"
    by (rule far) simp_all
  have f01: "haversine (radians 0, radians 0) (radians 0, radians 90) \<le> 1.8 / 6371 \<longleftrightarrow> False"
    by (rule far) simp_all
  have f10: "haversine (radians 0, radians 90) (radians 0, radians 0) \<le> 1.8 / 6371 \<longleftrightarrow> False"
    by (rule far) simp_all
  have f12: "haversine (radians 0, radians 90) (radians 0, radians (1 / 100)) \<le> 1.8 / 6371 \<longleftrightarrow> False"
    by (rule far) simp_all
  have f21: "haversine (radians 0, radians (1 / 100)) (radians 0, radians 90) \<le> 1.8 / 6371 \<longleftrightarrow> False"
    by (rule far) simp_all
  have f13: "haversine (radians 0, radians 90) (radians 0, radians (2 / 100)) \<le> 1.8 / 6371 \<longleftrightarrow> False"
    by (rule far) simp_all
  have f31: "haversine (radians 0, radians (2 / 100)) (radians 0, radians 90) \<le> 1.8 / 6371 \<longleftrightarrow> False"
    by (rule far) simp_all
  have c: "coords_rad_of example_photos ! 0 = (radians 0, radians 0)"
         "coords_rad_of example_photos ! 1 = (radians 0, radians 90)"
         "coords_rad_of example_photos ! 2 = (radians 0, radians (1 / 100))"
         "coords_rad_of example_photos ! 3 = (radians 0, radians (2 / 100))"
    by (simp_all add: example_coords)
  show ?thesis
    using i j
    by (elim disjE; hypsubst;
        simp only: c n00 n11 n22 n33 n02 n20 n23 n32 f03 f30 f01 f10 f12 f21 f13 f31;
        simp add: example_near_def)
qed

lemma example_loop:
  "dbscan_loop example_near [0..<4] 0 (replicate 4 None) = [Some 0, Some 1, Some 0, Some 0]"
  by code_simp

lemma example_labels:
  "DBSCAN_labels (1.8 / 6371) (coords_rad_of example_photos) = [0, 1, 0, 0]"
proof -
  let ?X = "coords_rad_of example_photos"
  have len: "length ?X = 4" by (simp add: example_coords)
  have "dbscan_loop (\<lambda>i j. haversine (?X ! i) (?X ! j) \<le> 1.8 / 6371) [0..<4] 0 (replicate 4 None) =
        dbscan_loop example_near [0..<4] 0 (replicate 4 None)"
    by (rule dbscan_loop_cong) (rule example_nb; simp)
  then show ?thesis
    unfolding DBSCAN_labels_def len example_loop by simp
qed

lemma example_clusters:
  "cluster_points example_photos 1.8 =
     [(0, [(''a.jpg'', 0, 0, None), (''b.jpg'', 0, 1 / 100, None), (''c.jpg'', 0, 2 / 100, None)]),
      (1, [(''d.jpg'', 0, 90, Some ''2023:05:17 14:30:00'')])]"
proof -
  have ne: "example_photos \<noteq> []" by (simp add: example_photos_def)
  show ?thesis
    unfolding cluster_points_unfold [OF ne] example_labels
    by (simp add: group_by_label_def example_photos_def)
qed

subsection \<open>The distance metric\<close>

text \<open>
  Claim C8. The distance of two records is symmetric, the distance of a record to itself is
  zero, and a distance is never negative. The metric is the haversine formula over the real
  numbers, on a sphere of radius 6371 km, with degrees converted to radians.
\<close>

theorem distanceKm_symmetric_zero_nonneg:
  "distanceKm a b = distanceKm b a \<and> distanceKm a a = 0 \<and> 0 \<le> distanceKm a b"
proof -
  obtain n1 lat1 lon1 t1 where a: "a = (n1, lat1, lon1, t1)" by (cases a)
  obtain n2 lat2 lon2 t2 where b: "b = (n2, lat2, lon2, t2)" by (cases b)
  show ?thesis
    unfolding a b distanceKm_def
    using haversine_sym [of "(radians lat1, radians lon1)" "(radians lat2, radians lon2)"]
      haversine_nonneg [of "(radians lat1, radians lon1)" "(radians lat2, radians lon2)"]
    by (simp add: haversine_self)
qed

subsection \<open>The clusters partition the input\<close>

text \<open>
  Claim C2. The mapping returned by \<^verbatim>\<open>cluster_points\<close> is a partition of the input: the
  member lists taken together hold every input record exactly as often as the input does,
  the keys are pairwise different, and no key is the noise label \<open>-1\<close>. When the input
  records are pairwise different, each lies in exactly one cluster. For the empty input the
  mapping is empty.
\<close>

theorem cluster_points_partition:
  "cluster_points [] d = [] \<and>
   mset (concat (map snd (cluster_points photos d))) = mset photos \<and>
   distinct (map fst (cluster_points photos d)) \<and>
   - 1 \<notin> fst ` set (cluster_points photos d) \<and>
   (distinct photos \<longrightarrow>
      (\<forall>p \<in> set photos. \<exists>!c. c \<in> set (cluster_points photos d) \<and> p \<in> set (snd c)))"
proof (cases "photos = []")
  case True
  then show ?thesis
    by (simp add: cluster_points_def cluster_points_with_empty)
next
  case False
  let ?labels = "DBSCAN_labels (d / 6371) (coords_rad_of photos)"
  have cp: "cluster_points photos d = group_by_label ?labels photos"
    using False by (rule cluster_points_unfold)
  have len: "length ?labels = length photos" by (rule cluster_labels_length)
  have e: "cluster_points [] d = []"
    by (simp add: cluster_points_def cluster_points_with_empty)
  have m: "mset (concat (map snd (cluster_points photos d))) = mset photos"
    unfolding cp using len by (rule group_by_label_mset)
  have k: "distinct (map fst (cluster_points photos d))"
    unfolding cp by (rule group_by_label_distinct)
  have n: "- 1 \<notin> fst ` set (cluster_points photos d)"
    unfolding cp group_by_label_keys [OF len]
    using DBSCAN_labels_nonneg [of "- 1" "d / 6371" "coords_rad_of photos"] by auto
  have u: "\<exists>!c. c \<in> set (cluster_points photos d) \<and> p \<in> set (snd c)"
    if dist: "distinct photos" and p: "p \<in> set photos" for p
  proof -
    from p obtain i where i: "i < length photos" "photos ! i = p"
      by (auto simp: in_set_conv_nth)
    from group_by_label_position [OF len i(1)] i(2)
    obtain ms where ms: "(?labels ! i, ms) \<in> set (group_by_label ?labels photos)" "p \<in> set ms"
      by auto
    show ?thesis
    proof (rule ex1I [of _ "(?labels ! i, ms)"])
      show "(?labels ! i, ms) \<in> set (cluster_points photos d) \<and> p \<in> set (snd (?labels ! i, ms))"
        using ms cp by simp
    next
      fix c
      assume c: "c \<in> set (cluster_points photos d) \<and> p \<in> set (snd c)"
      obtain k' ms' where c': "c = (k', ms')" by (cases c)
      with c cp have in': "(k', ms') \<in> set (group_by_label ?labels photos)" "p \<in> set ms'"
        by simp_all
      from group_by_label_member_position [OF in']
      obtain j where j: "j < length photos" "?labels ! j = k'" "photos ! j = p" by auto
      with i dist have "j = i" by (metis nth_eq_iff_index_eq)
      with j have "k' = ?labels ! i" by simp
      moreover from group_by_label_members [OF in'(1)] group_by_label_members [OF ms(1)]
        \<open>k' = ?labels ! i\<close> have "ms' = ms" by simp
      ultimately show "c = (?labels ! i, ms)" using c' by simp
    qed
  qed
  from e m k n u show ?thesis by blast
qed

theorem cluster_points_partition_witness:
  "mset (concat (map snd (cluster_points example_photos 1.8))) = mset example_photos \<and>
   (\<exists>!c. c \<in> set (cluster_points example_photos 1.8) \<and>
         (''b.jpg'', 0, 1 / 100, None) \<in> set (snd c))"
proof -
  have d: "distinct example_photos" by (simp add: example_photos_def)
  have b: "(''b.jpg'', 0, 1 / 100, None) \<in> set example_photos" by (simp add: example_photos_def)
  from cluster_points_partition [of "1.8" example_photos] d b show ?thesis by blast
qed

subsection \<open>The clusters keep the input order\<close>

text \<open>
  Claim C9. The members of every cluster appear in the order they have in the input: each
  member list is a subsequence of the input sequence.
\<close>

theorem cluster_points_stable_order:
  assumes "(k, ms) \<in> set (cluster_points photos d)"
  shows "subseq ms photos"
proof (cases "photos = []")
  case True
  with assms show ?thesis
    by (simp add: cluster_points_def cluster_points_with_empty)
next
  case False
  with assms show ?thesis
    by (simp add: cluster_points_unfold group_by_label_subseq)
qed

theorem cluster_points_stable_order_witness:
  "(0, [(''a.jpg'', 0, 0, None), (''b.jpg'', 0, 1 / 100, None), (''c.jpg'', 0, 2 / 100, None)])
     \<in> set (cluster_points example_photos 1.8) \<and>
   subseq [(''a.jpg'', 0, 0, None), (''b.jpg'', 0, 1 / 100, None), (''c.jpg'', 0, 2 / 100, None)]
     example_photos"
proof -
  have h: "(0, [(''a.jpg'', 0, 0, None), (''b.jpg'', 0, 1 / 100, None), (''c.jpg'', 0, 2 / 100, None)])
     \<in> set (cluster_points example_photos 1.8)"
    unfolding example_clusters by simp
  from h cluster_points_stable_order [OF h] show ?thesis ..
qed

subsection \<open>The members of a cluster are chain-connected\<close>

lemma group_by_label_member_at:
  assumes len: "length labels = length photos"
      and c: "(k, ms) \<in> set (group_by_label labels photos)"
      and i: "i < length photos" "labels ! i = k"
  shows "photos ! i \<in> set ms"
proof -
  from group_by_label_position [OF len i(1)] i(2)
  obtain ms' where ms': "(k, ms') \<in> set (group_by_label labels photos)" "photos ! i \<in> set ms'"
    by auto
  from group_by_label_members [OF c] group_by_label_members [OF ms'(1)]
  have "ms' = ms" by simp
  with ms'(2) show ?thesis by simp
qed

lemma edge_in_cluster:
  assumes c: "(k, ms) \<in> set (group_by_label (DBSCAN_labels (d / 6371) (coords_rad_of photos)) photos)"
      and e: "(i, j) \<in> edges (\<lambda>a b. haversine (coords_rad_of photos ! a) (coords_rad_of photos ! b)
                                      \<le> d / 6371
                                  \<and> DBSCAN_labels (d / 6371) (coords_rad_of photos) ! a = k
                                  \<and> DBSCAN_labels (d / 6371) (coords_rad_of photos) ! b = k)
                        (length photos)"
  shows "(photos ! i, photos ! j) \<in> directly_connected d ms"
proof -
  let ?labels = "DBSCAN_labels (d / 6371) (coords_rad_of photos)"
  have len: "length ?labels = length photos" by (rule cluster_labels_length)
  from e have i: "i < length photos" "?labels ! i = k" and j: "j < length photos" "?labels ! j = k"
    and h: "haversine (coords_rad_of photos ! i) (coords_rad_of photos ! j) \<le> d / 6371"
    by (simp_all add: edges_def)
  have mi: "photos ! i \<in> set ms" by (rule group_by_label_member_at [OF len c i])
  have mj: "photos ! j \<in> set ms" by (rule group_by_label_member_at [OF len c j])
  obtain n1 lat1 lon1 t1 where a: "photos ! i = (n1, lat1, lon1, t1)" by (cases "photos ! i")
  obtain n2 lat2 lon2 t2 where b: "photos ! j = (n2, lat2, lon2, t2)" by (cases "photos ! j")
  have "coords_rad_of photos ! i = (radians lat1, radians lon1)"
       "coords_rad_of photos ! j = (radians lat2, radians lon2)"
    using i j a b by (simp_all add: coords_rad_of_def)
  with h have "distanceKm (photos ! i) (photos ! j) \<le> d"
    by (simp add: distanceKm_def a b field_simps)
  with mi mj show ?thesis by (simp add: directly_connected_def)
qed

lemma path_in_cluster:
  assumes c: "(k, ms) \<in> set (group_by_label (DBSCAN_labels (d / 6371) (coords_rad_of photos)) photos)"
      and p: "(i, j) \<in> (edges (\<lambda>a b. haversine (coords_rad_of photos ! a) (coords_rad_of photos ! b)
                                      \<le> d / 6371
                                  \<and> DBSCAN_labels (d / 6371) (coords_rad_of photos) ! a = k
                                  \<and> DBSCAN_labels (d / 6371) (coords_rad_of photos) ! b = k)
                        (length photos))\<^sup>*"
  shows "(photos ! i, photos ! j) \<in> (directly_connected d ms)\<^sup>*"
  using p
proof (induction rule: rtrancl_induct)
  case base
  then show ?case by simp
next
  case (step y z)
  from edge_in_cluster [OF c step.hyps(2)] step.IH show ?case
    by (rule rtrancl_into_rtrancl [rotated])
qed

text \<open>
  Claim C1. Any two members of one cluster are linked by a chain of direct connections,
  each of at most the maximal distance, that runs through members of that cluster only.
  Nothing is said about the distance between the two members themselves: in the example
  below the first and the last member of a cluster are more than the maximal distance
  apart.
\<close>

theorem cluster_members_chain_connected:
  assumes c: "(k, ms) \<in> set (cluster_points photos max_distance)"
      and a: "a \<in> set ms" and b: "b \<in> set ms"
  shows "(a, b) \<in> (directly_connected max_distance ms)\<^sup>*"
proof -
  let ?X = "coords_rad_of photos"
  let ?labels = "DBSCAN_labels (max_distance / 6371) ?X"
  from c have ne: "photos \<noteq> []"
    by (auto simp: cluster_points_def cluster_points_with_empty)
  with c have g: "(k, ms) \<in> set (group_by_label ?labels photos)"
    by (simp add: cluster_points_unfold)
  from group_by_label_member_position [OF g a]
  obtain i where i: "i < length photos" "?labels ! i = k" "photos ! i = a" by auto
  from group_by_label_member_position [OF g b]
  obtain j where j: "j < length photos" "?labels ! j = k" "photos ! j = b" by auto
  have "(i, j) \<in> (edges (\<lambda>a b. haversine (?X ! a) (?X ! b) \<le> max_distance / 6371
                                  \<and> ?labels ! a = k \<and> ?labels ! b = k) (length ?X))\<^sup>*"
    using i j by (intro DBSCAN_labels_connected_in) (simp_all add: coords_rad_of_length)
  then have "(photos ! i, photos ! j) \<in> (directly_connected max_distance ms)\<^sup>*"
    by (intro path_in_cluster [OF g]) (simp add: coords_rad_of_length)
  with i j show ?thesis by simp
qed

theorem cluster_members_chain_connected_witness:
  "((''a.jpg'', 0, 0, None), (''c.jpg'', 0, 2 / 100, None))
     \<in> (directly_connected 1.8
          [(''a.jpg'', 0, 0, None), (''b.jpg'', 0, 1 / 100, None), (''c.jpg'', 0, 2 / 100, None)])\<^sup>* \<and>
   \<not> distanceKm (''a.jpg'', 0, 0, None) (''c.jpg'', 0, 2 / 100, None) \<le> 1.8"
proof
  have c: "(0, [(''a.jpg'', 0, 0, None), (''b.jpg'', 0, 1 / 100, None), (''c.jpg'', 0, 2 / 100, None)])
     \<in> set (cluster_points example_photos 1.8)"
    unfolding example_clusters by simp
  show "((''a.jpg'', 0, 0, None), (''c.jpg'', 0, 2 / 100, None))
     \<in> (directly_connected 1.8
          [(''a.jpg'', 0, 0, None), (''b.jpg'', 0, 1 / 100, None), (''c.jpg'', 0, 2 / 100, None)])\<^sup>*"
    by (rule cluster_members_chain_connected [OF c]) simp_all
next
  have "\<not> haversine (radians 0, radians 0) (radians 0, radians (2 / 100)) \<le> 1.8 / 6371"
    by (rule equator_far) simp_all
  then show "\<not> distanceKm (''a.jpg'', 0, 0, None) (''c.jpg'', 0, 2 / 100, None) \<le> 1.8"
    by (simp add: distanceKm_def field_simps)
qed

end
